theory Spec2Isabelle
  imports Complex_Main "HOL-Library.AList" "HOL-Library.Log_Nat"
begin

section \<open>The session-authentication tracker of auth\_manager.py\<close>

text \<open>
  The class \<open>AuthenticationManager\<close> holds one dictionary, \<open>authenticated_sessions\<close>,
  from a session id to the pair (account number, time of last activity), and reads the
  wall clock with \<open>time.time()\<close>. Both are made explicit here: the dictionary is an
  association list in insertion order (the order Python iterates a dict in), and the clock
  is the sequence of values that successive calls of \<open>time.time()\<close> return, together
  with the number of calls made so far. Timestamps are double-precision floating-point
  numbers, subtracted with rounding as the hardware does. Python strings are lists of
  code points. Every operation returns either an exception (\<open>Inl\<close>) or its result
  together with the new state (\<open>Inr\<close>). The calls of the logger change nothing that the
  class reads and are left out.
\<close>

subsection \<open>Strings\<close>

type_synonym pystr = "nat list"

text \<open>A string literal of the source, as the list of its code points.\<close>

definition str :: "string \<Rightarrow> pystr" where
  "str s = map of_char s"

subsection \<open>Exceptions\<close>

datatype error = KeyError | AttributeError | JSONDecodeError | ValueError | RecursionError

subsection \<open>Python's dict, in insertion order\<close>

type_synonym ('k, 'v) dict = "('k \<times> 'v) list"

text \<open>\<open>k in d\<close>\<close>

definition dict_contains :: "'k \<Rightarrow> ('k, 'v) dict \<Rightarrow> bool" where
  "dict_contains k d = (map_of d k \<noteq> None)"

text \<open>\<open>d[k]\<close> raises KeyError on a missing key.\<close>

definition dict_getitem :: "'k \<Rightarrow> ('k, 'v) dict \<Rightarrow> error + 'v" where
  "dict_getitem k d = (case map_of d k of None \<Rightarrow> Inl KeyError | Some v \<Rightarrow> Inr v)"

text \<open>\<open>d[k] = v\<close> overwrites in place, or appends a new key at the end.\<close>

definition dict_setitem :: "'k \<Rightarrow> 'v \<Rightarrow> ('k, 'v) dict \<Rightarrow> ('k, 'v) dict" where
  "dict_setitem k v d = AList.update k v d"

text \<open>\<open>del d[k]\<close> raises KeyError on a missing key.\<close>

definition dict_delitem :: "'k \<Rightarrow> ('k, 'v) dict \<Rightarrow> error + ('k, 'v) dict" where
  "dict_delitem k d = (if dict_contains k d then Inr (AList.delete k d) else Inl KeyError)"

text \<open>\<open>list(d.items())\<close>\<close>

definition dict_items :: "('k, 'v) dict \<Rightarrow> ('k \<times> 'v) list" where
  "dict_items d = d"

text \<open>A dict holds every key once.\<close>

definition dict_ok :: "('k, 'v) dict \<Rightarrow> bool" where
  "dict_ok d = distinct (map fst d)"

subsection \<open>Python's float\<close>

text \<open>
  A finite double is a number \<open>m * 2 ^ e\<close> with an integer \<open>m\<close> of at most 53 bits and
  an exponent \<open>e\<close> from -1074 to 971; \<open>Double m e\<close> stands for it. \<open>time.time()\<close>
  returns finite doubles, and nothing else is written to the store.
\<close>

datatype double = Double int int

definition valof :: "double \<Rightarrow> real" where
  "valof x = (case x of Double m e \<Rightarrow> of_int m * 2 powi e)"

definition is_double :: "double \<Rightarrow> bool" where
  "is_double x = (case x of Double m e \<Rightarrow> \<bar>m\<bar> < 2 ^ 53 \<and> - 1074 \<le> e \<and> e \<le> 971)"

text \<open>A float is a finite double, an infinity, or not a number.\<close>

datatype pyfloat = Finite double | PosInf | NegInf | NaN

text \<open>The integer nearest to \<open>m / d\<close>, the even one of two that are equally near.\<close>

definition round_half_even :: "int \<Rightarrow> int \<Rightarrow> int" where
  "round_half_even m d =
     (let q = m div d; r = m mod d
      in if 2 * r < d then q
         else if 2 * r > d then q + 1
         else if even q then q else q + 1)"

text \<open>A result of magnitude \<open>2 ^ 1024\<close> or more overflows to an infinity.\<close>

definition overflows :: "int \<Rightarrow> int \<Rightarrow> bool" where
  "overflows m e = (0 \<le> e \<and> 2 ^ 1024 \<le> \<bar>m\<bar> * 2 ^ nat e)"

definition finite_or_inf :: "int \<Rightarrow> int \<Rightarrow> pyfloat" where
  "finite_or_inf m e =
     (if overflows m e then (if 0 < m then PosInf else NegInf) else Finite (Double m e))"

text \<open>
  The exact number \<open>m * 2 ^ e\<close> rounded to 53 significant bits, to nearest with ties to
  even. A difference of two doubles has \<open>e\<close> at least -1074, so that rounding it never
  leaves the range of the exponents downwards.
\<close>

definition round_to_double :: "int \<Rightarrow> int \<Rightarrow> pyfloat" where
  "round_to_double m e =
     (let k = bitlen \<bar>m\<bar> - 53
      in if k \<le> 0 then finite_or_inf m e
         else finite_or_inf (round_half_even m (2 ^ nat k)) (e + k))"

text \<open>\<open>x - y\<close> on floats: the exact difference, rounded.\<close>

definition float_sub :: "double \<Rightarrow> double \<Rightarrow> pyfloat" where
  "float_sub x y =
     (case x of Double m1 e1 \<Rightarrow> case y of Double m2 e2 \<Rightarrow>
        (let e = min e1 e2
         in round_to_double (m1 * 2 ^ nat (e1 - e) - m2 * 2 ^ nat (e2 - e)) e))"

text \<open>
  \<open>x <= n\<close> and \<open>x > n\<close> for a float \<open>x\<close> and an int \<open>n\<close>: Python compares the two
  numbers exactly; every comparison with not-a-number is false.
\<close>

definition float_le_int :: "pyfloat \<Rightarrow> int \<Rightarrow> bool" where
  "float_le_int x n =
     (case x of
        Finite (Double m e) \<Rightarrow> (if 0 \<le> e then m * 2 ^ nat e \<le> n else m \<le> n * 2 ^ nat (- e))
      | PosInf \<Rightarrow> False
      | NegInf \<Rightarrow> True
      | NaN \<Rightarrow> False)"

definition float_gt_int :: "pyfloat \<Rightarrow> int \<Rightarrow> bool" where
  "float_gt_int x n =
     (case x of
        Finite (Double m e) \<Rightarrow> (if 0 \<le> e then m * 2 ^ nat e > n else m > n * 2 ^ nat (- e))
      | PosInf \<Rightarrow> True
      | NegInf \<Rightarrow> False
      | NaN \<Rightarrow> False)"

subsection \<open>The manager's state and the clock\<close>

record world =
  authenticated_sessions :: "(pystr, pystr \<times> double) dict"
  clock :: "nat \<Rightarrow> double"
  reads :: nat

text \<open>\<open>time.time()\<close>: the next reading of the clock.\<close>

definition time_time :: "world \<Rightarrow> double \<times> world" where
  "time_time w = (clock w (reads w), w\<lparr>reads := Suc (reads w)\<rparr>)"

definition SESSION_TIMEOUT :: int where
  "SESSION_TIMEOUT = 15 * 60"

text \<open>\<open>__init__\<close>: no session, for any clock.\<close>

definition init :: "(nat \<Rightarrow> double) \<Rightarrow> world" where
  "init c = \<lparr>authenticated_sessions = [], clock = c, reads = 0\<rparr>"

subsection \<open>The operations on sessions\<close>

definition authenticate_session :: "pystr \<Rightarrow> pystr \<Rightarrow> world \<Rightarrow> error + unit \<times> world" where
  "authenticate_session session_id account_number w =
     (case time_time w of
        (t, w1) \<Rightarrow>
          Inr ((), w1\<lparr>authenticated_sessions :=
                      dict_setitem session_id (account_number, t) (authenticated_sessions w1)\<rparr>))"

definition get_authenticated_account :: "pystr \<Rightarrow> world \<Rightarrow> error + pystr option \<times> world" where
  "get_authenticated_account session_id w =
     (if dict_contains session_id (authenticated_sessions w) then
        (case dict_getitem session_id (authenticated_sessions w) of
           Inl e \<Rightarrow> Inl e
         | Inr (account_number, _) \<Rightarrow> Inr (Some account_number, w))
      else Inr (None, w))"

definition is_authenticated :: "pystr \<Rightarrow> world \<Rightarrow> error + bool \<times> world" where
  "is_authenticated session_id w =
     (if \<not> dict_contains session_id (authenticated_sessions w) then Inr (False, w)
      else
        (case dict_getitem session_id (authenticated_sessions w) of
           Inl e \<Rightarrow> Inl e
         | Inr (_, last_activity) \<Rightarrow>
             (case time_time w of
                (t, w1) \<Rightarrow>
                  Inr (float_le_int (float_sub t last_activity) SESSION_TIMEOUT, w1))))"

definition update_session_activity :: "pystr \<Rightarrow> world \<Rightarrow> error + unit \<times> world" where
  "update_session_activity session_id w =
     (if dict_contains session_id (authenticated_sessions w) then
        (case dict_getitem session_id (authenticated_sessions w) of
           Inl e \<Rightarrow> Inl e
         | Inr (account_number, _) \<Rightarrow>
             (case time_time w of
                (t, w1) \<Rightarrow>
                  Inr ((), w1\<lparr>authenticated_sessions :=
                              dict_setitem session_id (account_number, t)
                                (authenticated_sessions w1)\<rparr>)))
      else Inr ((), w))"

text \<open>The first loop of \<open>cleanup_expired_sessions\<close>, over a snapshot of the items.\<close>

fun collect_expired :: "double \<Rightarrow> (pystr \<times> pystr \<times> double) list \<Rightarrow> pystr list" where
  "collect_expired current_time [] = []"
| "collect_expired current_time ((session_id, (_, last_activity)) # items) =
     (if float_gt_int (float_sub current_time last_activity) SESSION_TIMEOUT
      then session_id # collect_expired current_time items
      else collect_expired current_time items)"

text \<open>The second loop: delete each collected id that is still a key.\<close>

fun remove_sessions ::
  "pystr list \<Rightarrow> (pystr, pystr \<times> double) dict \<Rightarrow> error + (pystr, pystr \<times> double) dict" where
  "remove_sessions [] d = Inr d"
| "remove_sessions (session_id # expired) d =
     (if dict_contains session_id d then
        (case dict_delitem session_id d of
           Inl e \<Rightarrow> Inl e
         | Inr d' \<Rightarrow> remove_sessions expired d')
      else remove_sessions expired d)"

definition cleanup_expired_sessions :: "world \<Rightarrow> error + pystr list \<times> world" where
  "cleanup_expired_sessions w =
     (case time_time w of
        (current_time, w1) \<Rightarrow>
          (let expired_sessions =
                 collect_expired current_time (dict_items (authenticated_sessions w1))
           in case remove_sessions expired_sessions (authenticated_sessions w1) of
                Inl e \<Rightarrow> Inl e
              | Inr d \<Rightarrow> Inr (expired_sessions, w1\<lparr>authenticated_sessions := d\<rparr>)))"

definition end_session :: "pystr \<Rightarrow> world \<Rightarrow> error + bool \<times> world" where
  "end_session session_id w =
     (if dict_contains session_id (authenticated_sessions w) then
        (case dict_delitem session_id (authenticated_sessions w) of
           Inl e \<Rightarrow> Inl e
         | Inr d \<Rightarrow> Inr (True, w\<lparr>authenticated_sessions := d\<rparr>))
      else Inr (False, w))"

text \<open>The test of the first loop of the cleanup, for one item at time \<open>t\<close>.\<close>

definition expired_at :: "double \<Rightarrow> pystr \<times> pystr \<times> double \<Rightarrow> bool" where
  "expired_at t item = float_gt_int (float_sub t (snd (snd item))) SESSION_TIMEOUT"

subsection \<open>Conversations\<close>

text \<open>
  The values \<open>json.loads\<close> can return, and that \<open>get_cached_pin_from_conversation\<close>
  can therefore hand back: \<open>None\<close>, booleans, integers, floats, strings, lists and
  dicts with string keys.
\<close>

datatype pyval =
    PNone
  | PBool bool
  | PInt int
  | PFloat pyfloat
  | PStr pystr
  | PList "pyval list"
  | PDict "(pystr, pyval) dict"

text \<open>The truth value Python gives an object in \<open>if pin:\<close>.\<close>

fun truthy :: "pyval \<Rightarrow> bool" where
  "truthy PNone = False"
| "truthy (PBool b) = b"
| "truthy (PInt i) = (i \<noteq> 0)"
| "truthy (PFloat f) = (case f of Finite (Double m e) \<Rightarrow> m \<noteq> 0 | _ \<Rightarrow> True)"
| "truthy (PStr s) = (s \<noteq> [])"
| "truthy (PList xs) = (xs \<noteq> [])"
| "truthy (PDict kvs) = (kvs \<noteq> [])"

text \<open>
  \<open>args.get(key)\<close>: the value, or \<open>None\<close> for a missing key, when \<open>args\<close> is a dict;
  no other value that \<open>json.loads\<close> returns has an attribute \<open>get\<close>.
\<close>

fun py_get :: "pyval \<Rightarrow> pystr \<Rightarrow> error + pyval" where
  "py_get (PDict kvs) key = Inr (case map_of kvs key of None \<Rightarrow> PNone | Some v \<Rightarrow> v)"
| "py_get _ key = Inl AttributeError"

text \<open>
  \<open>str.isdigit\<close>: the string is not empty and each of its characters has the Unicode
  numeric type Digit or Decimal. These are the 788 code points of the ranges below
  (Unicode 14, the character database of Python 3.11): the decimal digits of all scripts,
  and digits that are no decimal digits, such as the superscripts U+00B2, U+00B3, U+00B9.
\<close>

definition digit_ranges :: "(nat \<times> nat) list" where
  "digit_ranges =
    [(48, 57), (178, 179), (185, 185), (1632, 1641), (1776, 1785), (1984, 1993),
     (2406, 2415), (2534, 2543), (2662, 2671), (2790, 2799), (2918, 2927), (3046, 3055),
     (3174, 3183), (3302, 3311), (3430, 3439), (3558, 3567), (3664, 3673), (3792, 3801),
     (3872, 3881), (4160, 4169), (4240, 4249), (4969, 4977), (6112, 6121), (6160, 6169),
     (6470, 6479), (6608, 6618), (6784, 6793), (6800, 6809), (6992, 7001), (7088, 7097),
     (7232, 7241), (7248, 7257), (8304, 8304), (8308, 8313), (8320, 8329), (9312, 9320),
     (9332, 9340), (9352, 9360), (9450, 9450), (9461, 9469), (9471, 9471), (10102, 10110),
     (10112, 10120), (10122, 10130), (42528, 42537), (43216, 43225), (43264, 43273),
     (43472, 43481), (43504, 43513), (43600, 43609), (44016, 44025), (65296, 65305),
     (66720, 66729), (68160, 68163), (68912, 68921), (69216, 69224), (69714, 69722),
     (69734, 69743), (69872, 69881), (69942, 69951), (70096, 70105), (70384, 70393),
     (70736, 70745), (70864, 70873), (71248, 71257), (71360, 71369), (71472, 71481),
     (71904, 71913), (72016, 72025), (72784, 72793), (73040, 73049), (73120, 73129),
     (92768, 92777), (92864, 92873), (93008, 93017), (120782, 120831), (123200, 123209),
     (123632, 123641), (125264, 125273), (127232, 127242), (130032, 130041)]"

definition isdigit_char :: "nat \<Rightarrow> bool" where
  "isdigit_char c = list_ex (\<lambda>(lo, hi). lo \<le> c \<and> c \<le> hi) digit_ranges"

definition isdigit :: "pystr \<Rightarrow> bool" where
  "isdigit s = (s \<noteq> [] \<and> list_all isdigit_char s)"

text \<open>
  The decimal digits \<open>0\<close> to \<open>9\<close>: what the specification asks of the four
  characters of a PIN, where the code asks \<open>isdigit\<close>.
\<close>

definition decimal_digit :: "nat \<Rightarrow> bool" where
  "decimal_digit c = (48 \<le> c \<and> c \<le> 57)"

text \<open>
  A message is a dict with the keys \<open>role\<close> and \<open>content\<close>, both strings, and,
  optionally, the key \<open>tool_calls\<close> with a list of tool calls; a tool call holds, under
  \<open>function\<close>, a name and a serialized argument payload, both strings. The field
  \<open>tool_calls\<close> is \<open>None\<close> when the message has no such key.
\<close>

record function_call =
  name :: pystr
  arguments :: pystr

record tool_call =
  func :: function_call

record message =
  role :: pystr
  content :: pystr
  tool_calls :: "tool_call list option"

text \<open>
  \<open>json.loads\<close> belongs to Python's library, not to this repository: it is a parameter
  \<open>loads\<close> of the model, which gives the decoded value or the exception raised:
  \<open>JSONDecodeError\<close> for a string that is not JSON, \<open>ValueError\<close> for an integer of
  too many digits, \<open>RecursionError\<close> for too deep a nesting.

  The body of the inner loop for one tool call: \<open>Inr (Some pin)\<close> is \<open>return pin\<close>,
  \<open>Inr None\<close> goes on to the next tool call. The \<open>try\<close> block covers \<open>json.loads\<close>
  and \<open>args.get\<close>; the handler catches \<open>JSONDecodeError\<close> only.
\<close>

definition try_validate_pin :: "(pystr \<Rightarrow> error + pyval) \<Rightarrow> tool_call \<Rightarrow> error + pyval option" where
  "try_validate_pin loads tc =
     (case loads (arguments (func tc)) of
        Inl e \<Rightarrow> Inl e
      | Inr args \<Rightarrow>
          (case py_get args (str ''pin'') of
             Inl e \<Rightarrow> Inl e
           | Inr pin \<Rightarrow> if truthy pin then Inr (Some pin) else Inr None))"

definition tool_call_pin :: "(pystr \<Rightarrow> error + pyval) \<Rightarrow> tool_call \<Rightarrow> error + pyval option" where
  "tool_call_pin loads tc =
     (if name (func tc) = str ''validate_pin'' then
        (case try_validate_pin loads tc of
           Inl JSONDecodeError \<Rightarrow> Inr None
         | Inl e \<Rightarrow> Inl e
         | Inr r \<Rightarrow> Inr r)
      else Inr None)"

text \<open>The inner loop, over the tool calls in the order the message holds them.\<close>

fun scan_tool_calls :: "(pystr \<Rightarrow> error + pyval) \<Rightarrow> tool_call list \<Rightarrow> error + pyval option" where
  "scan_tool_calls loads [] = Inr None"
| "scan_tool_calls loads (tc # tcs) =
     (case tool_call_pin loads tc of
        Inl e \<Rightarrow> Inl e
      | Inr (Some pin) \<Rightarrow> Inr (Some pin)
      | Inr None \<Rightarrow> scan_tool_calls loads tcs)"

text \<open>
  The body of the outer loop for one message: the test of a user message, then the test
  of an assistant message, which a message of role \<open>user\<close> never passes.
\<close>

definition message_pin :: "(pystr \<Rightarrow> error + pyval) \<Rightarrow> message \<Rightarrow> error + pyval option" where
  "message_pin loads msg =
     (if role msg = str ''user'' \<and> length (content msg) = 4 \<and> isdigit (content msg)
      then Inr (Some (PStr (content msg)))
      else if role msg = str ''assistant'' then
        (case tool_calls msg of
           Some tcs \<Rightarrow> scan_tool_calls loads tcs
         | None \<Rightarrow> Inr None)
      else Inr None)"

text \<open>The outer loop, over the messages in the order given.\<close>

fun scan_messages :: "(pystr \<Rightarrow> error + pyval) \<Rightarrow> message list \<Rightarrow> error + pyval option" where
  "scan_messages loads [] = Inr None"
| "scan_messages loads (msg # msgs) =
     (case message_pin loads msg of
        Inl e \<Rightarrow> Inl e
      | Inr (Some pin) \<Rightarrow> Inr (Some pin)
      | Inr None \<Rightarrow> scan_messages loads msgs)"

text \<open>\<open>for msg in reversed(conversation)\<close>, then \<open>return None\<close>.\<close>

definition get_cached_pin_from_conversation ::
  "(pystr \<Rightarrow> error + pyval) \<Rightarrow> message list \<Rightarrow> error + pyval option" where
  "get_cached_pin_from_conversation loads conversation = scan_messages loads (rev conversation)"

text \<open>
  What \<open>json.loads\<close> does on the payloads of the examples below: an object with a pin,
  \<open>null\<close>, a list, and a string that is not JSON. The examples apply it to these four
  strings only.
\<close>

definition loads_examples :: "pystr \<Rightarrow> error + pyval" where
  \<open>loads_examples s =
     (if s = str ''{"pin":"5678"}'' then Inr (PDict [(str ''pin'', PStr (str ''5678''))])
      else if s = str ''null'' then Inr PNone
      else if s = str ''[1]'' then Inr (PList [PInt 1])
      else Inl JSONDecodeError)\<close>

section \<open>Rounding\<close>

text \<open>
  The computed difference of two doubles is at most 900 exactly when their exact difference
  is at most \<open>900 + 2 ^ -44\<close>: between 512 and 1024 the doubles are \<open>2 ^ -43\<close> apart, and
  900 is the even one of its two neighbours. When the earlier time is at least 512, as
  every time since the epoch is, both comparisons agree with that of the exact difference
  with 900.
\<close>

lemma float_le_int_Finite:
  "float_le_int (Finite (Double m e)) n \<longleftrightarrow> of_int m * 2 powi e \<le> (of_int n :: real)"
proof (cases "0 \<le> e")
  case True
  then have p: "(2::real) powi e = 2 ^ nat e" by (simp add: power_int_nonneg_exp)
  have "(m * 2 ^ nat e \<le> n) = (real_of_int (m * 2 ^ nat e) \<le> real_of_int n)"
    by (simp only: of_int_le_iff)
  also have "real_of_int (m * 2 ^ nat e) = real_of_int m * 2 ^ nat e"
    by simp
  finally show ?thesis using True by (simp add: float_le_int_def p)
next
  case False
  then have p: "(2::real) powi e = 1 / 2 ^ nat (- e)"
    using power_int_minus_divide[of "2::real" "- e"] by (simp add: power_int_nonneg_exp)
  have "(m \<le> n * 2 ^ nat (- e)) = (real_of_int m \<le> real_of_int (n * 2 ^ nat (- e)))"
    by (simp only: of_int_le_iff)
  also have "real_of_int (n * 2 ^ nat (- e)) = real_of_int n * 2 ^ nat (- e)"
    by simp
  also have "(real_of_int m \<le> real_of_int n * 2 ^ nat (- e)) = (real_of_int m / 2 ^ nat (- e) \<le> real_of_int n)"
    by (simp add: field_simps)
  finally show ?thesis using False by (simp add: float_le_int_def p)
qed

lemma rhe_split:
  assumes "0 < d"
  obtains q r where "m = q * d + r" and "0 \<le> r" and "r < d"
    and "round_half_even m d =
      (if 2 * r < d then q else if 2 * r > d then q + 1 else if even q then q else q + 1)"
proof -
  have "m = (m div d) * d + m mod d" by simp
  moreover have "0 \<le> m mod d" using assms by simp
  moreover have "m mod d < d" using assms by simp
  moreover have "round_half_even m d =
      (if 2 * (m mod d) < d then m div d else if 2 * (m mod d) > d then m div d + 1
       else if even (m div d) then m div d else m div d + 1)"
    by (simp add: round_half_even_def Let_def)
  ultimately show ?thesis using that by blast
qed

lemma rhe_le:
  assumes "0 < d" and "2 * m < (2 * c + 1) * d"
  shows "round_half_even m d \<le> c"
proof -
  obtain q r where m: "m = q * d + r" and r: "0 \<le> r" "r < d"
    and v: "round_half_even m d =
      (if 2 * r < d then q else if 2 * r > d then q + 1 else if even q then q else q + 1)"
    using rhe_split[OF assms(1)] by blast
  have qc: "q \<le> c"
  proof (rule ccontr)
    assume "\<not> q \<le> c"
    then have "c + 1 \<le> q" by simp
    then have "(c + 1) * d \<le> q * d" using assms(1) by (simp add: mult_right_mono)
    then have "c * d + d \<le> q * d" by (simp add: algebra_simps)
    moreover have "2 * (q * d) + 2 * r < 2 * (c * d) + d"
      using assms(2) m by (simp add: algebra_simps)
    ultimately show False using r assms(1) by linarith
  qed
  show ?thesis
  proof (cases "q = c")
    case True
    have "2 * (q * d) + 2 * r < 2 * (c * d) + d"
      using assms(2) m by (simp add: algebra_simps)
    with True have "2 * r < d" by simp
    with v True show ?thesis by simp
  next
    case False
    with qc have "q + 1 \<le> c" by simp
    with v show ?thesis by (simp split: if_splits)
  qed
qed

lemma rhe_le_even:
  assumes "0 < d" and "even c" and "2 * m \<le> (2 * c + 1) * d"
  shows "round_half_even m d \<le> c"
proof -
  obtain q r where m: "m = q * d + r" and r: "0 \<le> r" "r < d"
    and v: "round_half_even m d =
      (if 2 * r < d then q else if 2 * r > d then q + 1 else if even q then q else q + 1)"
    using rhe_split[OF assms(1)] by blast
  have le: "2 * (q * d) + 2 * r \<le> 2 * (c * d) + d"
    using assms(3) m by (simp add: algebra_simps)
  have qc: "q \<le> c"
  proof (rule ccontr)
    assume "\<not> q \<le> c"
    then have "c + 1 \<le> q" by simp
    then have "(c + 1) * d \<le> q * d" using assms(1) by (simp add: mult_right_mono)
    then have "c * d + d \<le> q * d" by (simp add: algebra_simps)
    with le show False using r assms(1) by linarith
  qed
  show ?thesis
  proof (cases "q = c")
    case True
    with le have "2 * r \<le> d" by simp
    with v True assms(2) show ?thesis by simp
  next
    case False
    with qc have "q + 1 \<le> c" by simp
    with v show ?thesis by (simp split: if_splits)
  qed
qed

lemma rhe_ge:
  assumes "0 < d" and "c * d \<le> m"
  shows "c \<le> round_half_even m d"
proof -
  obtain q r where m: "m = q * d + r" and r: "0 \<le> r" "r < d"
    and v: "round_half_even m d =
      (if 2 * r < d then q else if 2 * r > d then q + 1 else if even q then q else q + 1)"
    using rhe_split[OF assms(1)] by blast
  have "c \<le> q"
  proof (rule ccontr)
    assume "\<not> c \<le> q"
    then have "q + 1 \<le> c" by simp
    then have "(q + 1) * d \<le> c * d" using assms(1) by (simp add: mult_right_mono)
    then have "q * d + d \<le> c * d" by (simp add: algebra_simps)
    with assms(2) m r show False by linarith
  qed
  with v show ?thesis by (simp split: if_splits)
qed

lemma rhe_upper:
  assumes "0 < d"
  shows "2 * m \<le> (2 * round_half_even m d + 1) * d"
proof -
  obtain q r where m: "m = q * d + r" and r: "0 \<le> r" "r < d"
    and v: "round_half_even m d =
      (if 2 * r < d then q else if 2 * r > d then q + 1 else if even q then q else q + 1)"
    using rhe_split[OF assms(1)] by blast
  have a: "2 * m = 2 * (q * d) + 2 * r" using m by simp
  have b: "(2 * q + 1) * d = 2 * (q * d) + d" by (simp add: algebra_simps)
  have c: "(2 * (q + 1) + 1) * d = 2 * (q * d) + 3 * d" by (simp add: algebra_simps)
  show ?thesis
    unfolding v a using r assms b c by (auto split: if_splits)
qed

lemma powi_nat: "0 \<le> k \<Longrightarrow> (2::real) powi k = 2 ^ nat k"
  by (simp add: power_int_nonneg_exp)

lemma powi_add: "(2::real) powi (a + b) = 2 powi a * 2 powi b"
  by (simp add: power_int_add)

lemma powi_pos: "0 < (2::real) powi a"
  by simp

lemma powi_le: "a \<le> b \<Longrightarrow> (2::real) powi a \<le> 2 powi b"
  by (simp add: power_int_increasing)

lemma powi_less_exp: "(2::real) powi a < 2 powi b \<Longrightarrow> a < b"
proof (rule ccontr)
  assume "2 powi a < (2::real) powi b" and "\<not> a < b"
  then have "(2::real) powi b \<le> 2 powi a" by (simp add: powi_le)
  with \<open>2 powi a < (2::real) powi b\<close> show False by simp
qed

lemma overflowsD:
  assumes "overflows q e"
  shows "0 \<le> e" and "(2::real) ^ 1024 \<le> \<bar>of_int q\<bar> * 2 ^ nat e"
proof -
  from assms show e: "0 \<le> e" unfolding overflows_def by blast
  from assms have "(2::int) ^ 1024 \<le> \<bar>q\<bar> * 2 ^ nat e" unfolding overflows_def by blast
  then have "real_of_int (2 ^ 1024) \<le> real_of_int (\<bar>q\<bar> * 2 ^ nat e)"
    by (simp only: of_int_le_iff)
  then show "(2::real) ^ 1024 \<le> \<bar>of_int q\<bar> * 2 ^ nat e"
    by (simp only: of_int_mult of_int_power of_int_numeral of_int_abs)
qed

lemma float_le_finite_or_inf_900:
  "float_le_int (finite_or_inf q e) 900 \<longleftrightarrow> of_int q * 2 powi e \<le> (900::real)"
proof (cases "overflows q e")
  case False
  then have "finite_or_inf q e = Finite (Double q e)"
    by (simp add: finite_or_inf_def)
  then show ?thesis using float_le_int_Finite[of q e 900] by simp
next
  case True
  note e = overflowsD(1)[OF True] and big = overflowsD(2)[OF True]
  have p: "(2::real) powi e = 2 ^ nat e" using e by (rule powi_nat)
  have small: "(900::real) < 2 ^ 1024"
  proof -
    have "(2::real) ^ 10 \<le> 2 ^ 1024" by (rule power_increasing) simp_all
    moreover have "(900::real) < 2 ^ 10" by simp
    ultimately show ?thesis by (rule less_le_trans[rotated])
  qed
  show ?thesis
  proof (cases "0 < q")
    case q: True
    then have "\<bar>real_of_int q\<bar> = real_of_int q" by simp
    with big small have "\<not> of_int q * 2 powi e \<le> (900::real)" unfolding p by linarith
    moreover have "finite_or_inf q e = PosInf"
      using True q by (simp add: finite_or_inf_def)
    ultimately show ?thesis by (simp add: float_le_int_def)
  next
    case q: False
    then have "real_of_int q \<le> 0" by simp
    then have "real_of_int q * 2 powi e \<le> 0"
      by (simp add: mult_le_0_iff)
    then have "of_int q * 2 powi e \<le> (900::real)" by linarith
    moreover have "finite_or_inf q e = NegInf"
      using True q by (simp add: finite_or_inf_def)
    ultimately show ?thesis by (simp add: float_le_int_def)
  qed
qed

lemma exact_threshold:
  assumes "\<bar>m\<bar> < 2 ^ 53"
  shows "(of_int m * 2 powi e \<le> (900::real)) = (of_int m * 2 powi e \<le> 900 + (2::real) powi (- 44))"
proof
  assume "of_int m * 2 powi e \<le> (900::real)"
  moreover have "0 < (2::real) powi (- 44)" by simp
  ultimately show "of_int m * 2 powi e \<le> 900 + (2::real) powi (- 44)" by linarith
next
  assume le: "of_int m * 2 powi e \<le> 900 + (2::real) powi (- 44)"
  show "of_int m * 2 powi e \<le> (900::real)"
  proof (rule ccontr)
    assume "\<not> of_int m * 2 powi e \<le> (900::real)"
    then have gt: "900 < real_of_int m * 2 powi e" by simp
    have mpos: "0 < m"
    proof (rule ccontr)
      assume "\<not> 0 < m"
      then have "real_of_int m \<le> 0" by simp
      then have "real_of_int m * 2 powi e \<le> 0" by (simp add: mult_le_0_iff)
      with gt show False by simp
    qed
    from assms mpos have "real_of_int m < 2 ^ 53"
      by (metis abs_of_pos of_int_less_iff of_int_numeral of_int_power)
    then have "real_of_int m * 2 powi e < 2 ^ 53 * 2 powi e"
      by (simp add: mult_strict_right_mono)
    with gt have "(900::real) < 2 ^ 53 * 2 powi e" by linarith
    then have "(2::real) ^ 9 < 2 ^ 53 * 2 powi e" by simp
    then have "(2::real) powi (- 44) < 2 powi e"
      by (simp add: power_int_minus field_simps)
    then have "- 44 < e" by (rule powi_less_exp)
    then have e43: "0 \<le> e + 43" by simp
    define N where "N = m * 2 ^ nat (e + 43)"
    have "(2::real) powi e = 2 powi (e + 43) * 2 powi (- 43)"
      using powi_add[of "e + 43" "- 43"] by simp
    also have "\<dots> = 2 ^ nat (e + 43) * 2 powi (- 43)"
      using e43 by (simp add: powi_nat)
    finally have x: "real_of_int m * 2 powi e = real_of_int N * 2 powi (- 43)"
      by (simp add: N_def)
    from gt x have "900 < real_of_int N * 2 powi (- 43)" by simp
    then have "900 * 2 ^ 43 < real_of_int N"
      by (simp add: power_int_minus field_simps)
    then have "real_of_int (900 * 2 ^ 43) < real_of_int N" by simp
    then have "900 * 2 ^ 43 < N" by (simp only: of_int_less_iff)
    then have "900 * 2 ^ 43 + 1 \<le> N" by simp
    then have "real_of_int (900 * 2 ^ 43 + 1) \<le> real_of_int N" by (simp only: of_int_le_iff)
    then have "900 * 2 ^ 43 + 1 \<le> real_of_int N" by simp
    then have "900 + 2 powi (- 43) \<le> real_of_int N * 2 powi (- 43)"
      by (simp add: power_int_minus field_simps)
    with le x have "900 + (2::real) powi (- 43) \<le> 900 + 2 powi (- 44)" by simp
    then show False by (simp add: power_int_minus)
  qed
qed

lemma round_threshold:
  assumes k: "0 < k" and bl: "bitlen \<bar>m\<bar> = 53 + k"
  shows "(of_int (round_half_even m (2 ^ nat k)) * 2 powi (e + k) \<le> (900::real))
       = (of_int m * 2 powi e \<le> 900 + (2::real) powi (- 44))"
proof -
  define d :: int where "d = 2 ^ nat k"
  define q where "q = round_half_even m d"
  define D :: real where "D = 2 ^ nat k"
  define pE :: real where "pE = 2 powi (e + k)"
  define x :: real where "x = of_int m * 2 powi e"
  have d: "0 < d" by (simp add: d_def)
  have D: "0 < D" "real_of_int d = D" by (simp_all add: D_def d_def)
  have pE: "0 < pE" "pE = 2 powi e * D"
    using k by (simp_all add: pE_def D_def powi_add powi_nat)
  have mabs: "0 < \<bar>m\<bar>"
  proof (rule ccontr)
    assume "\<not> 0 < \<bar>m\<bar>"
    then have "bitlen \<bar>m\<bar> = 0" by simp
    with bl k show False by simp
  qed
  have n52: "nat (bitlen \<bar>m\<bar> - 1) = 52 + nat k" and n53: "nat (bitlen \<bar>m\<bar>) = 53 + nat k"
    using bl k by (simp_all add: nat_add_distrib)
  from bitlen_bounds[OF mabs]
  have lo: "2 ^ 52 * d \<le> \<bar>m\<bar>" and hi: "\<bar>m\<bar> < 2 ^ 53 * d"
    unfolding n52 n53 by (simp_all add: d_def power_add)
  have up: "2 * m \<le> (2 * q + 1) * d"
    unfolding q_def by (rule rhe_upper[OF d])
  show ?thesis
  proof (cases "0 < m")
    case False
    with mabs have neg: "m < 0" by simp
    then have "2 * m < (2 * 0 + 1) * d" using d by simp
    then have "q \<le> 0" unfolding q_def by (rule rhe_le[OF d])
    then have "real_of_int q * pE \<le> 0"
      using pE(1) by (simp add: mult_le_0_iff)
    then have l: "real_of_int q * pE \<le> 900" by linarith
    from neg have "real_of_int m * 2 powi e \<le> 0"
      by (simp add: mult_le_0_iff)
    moreover have "0 < (2::real) powi (- 44)" by simp
    ultimately have r: "real_of_int m * 2 powi e \<le> 900 + (2::real) powi (- 44)" by linarith
    from l r show ?thesis by (simp add: q_def d_def pE_def)
  next
    case True
    with lo hi have lo': "2 ^ 52 * d \<le> m" and hi': "m < 2 ^ 53 * d" by simp_all
    have q52: "2 ^ 52 \<le> q" unfolding q_def using lo' by (rule rhe_ge[OF d])
    have "2 * m < (2 * 2 ^ 53 + 1) * d" using hi' d by (simp add: algebra_simps)
    then have q53: "q \<le> 2 ^ 53" unfolding q_def by (rule rhe_le[OF d])
    have rq52: "(2::real) ^ 52 \<le> real_of_int q"
    proof -
      from q52 have "real_of_int (2 ^ 52) \<le> real_of_int q" by (simp only: of_int_le_iff)
      then show ?thesis by simp
    qed
    have rq53: "real_of_int q \<le> 2 ^ 53"
    proof -
      from q53 have "real_of_int q \<le> real_of_int (2 ^ 53)" by (simp only: of_int_le_iff)
      then show ?thesis by simp
    qed
    have xlo: "2 ^ 52 * pE \<le> x"
    proof -
      from lo' have "real_of_int (2 ^ 52 * d) \<le> real_of_int m" by (simp only: of_int_le_iff)
      then have "2 ^ 52 * D \<le> real_of_int m" using D(2) by simp
      then have "(2 ^ 52 * D) * 2 powi e \<le> real_of_int m * 2 powi e"
        by (rule mult_right_mono) simp
      then show ?thesis by (simp add: x_def pE(2) mult_ac)
    qed
    have xup: "2 * x \<le> (2 * real_of_int q + 1) * pE"
    proof -
      from up have "real_of_int (2 * m) \<le> real_of_int ((2 * q + 1) * d)"
        by (simp only: of_int_le_iff)
      then have "2 * real_of_int m \<le> (2 * real_of_int q + 1) * D" using D(2) by simp
      then have "(2 * real_of_int m) * 2 powi e \<le> ((2 * real_of_int q + 1) * D) * 2 powi e"
        by (rule mult_right_mono) simp
      then show ?thesis by (simp add: x_def pE(2) mult_ac)
    qed
    have small: "e + k \<le> - 43" if "2 ^ 52 * pE < (2::real) ^ 10"
    proof -
      from that have "pE < 2 powi (- 42)"
        by (simp add: power_int_minus field_simps)
      then have "e + k < - 42" unfolding pE_def by (rule powi_less_exp)
      then show ?thesis by simp
    qed
    have "(real_of_int q * pE \<le> 900) = (x \<le> 900 + 2 powi (- 44))"
    proof
      assume a: "real_of_int q * pE \<le> 900"
      have "2 ^ 52 * pE \<le> real_of_int q * pE"
        using rq52 pE(1) by (simp add: mult_right_mono)
      with a have "2 ^ 52 * pE < (2::real) ^ 10" by simp
      then have "e + k \<le> - 43" by (rule small)
      then have "pE \<le> 2 powi (- 43)" unfolding pE_def by (rule powi_le)
      moreover have "(2::real) powi (- 43) = 2 * 2 powi (- 44)"
        by (simp add: power_int_minus)
      moreover have "2 * x \<le> 2 * (real_of_int q * pE) + pE"
        using xup by (simp add: algebra_simps)
      ultimately show "x \<le> 900 + 2 powi (- 44)" using a by linarith
    next
      assume a: "x \<le> 900 + 2 powi (- 44)"
      have "(2::real) powi (- 44) < 1" by (simp add: power_int_minus)
      with a xlo have "2 ^ 52 * pE < (2::real) ^ 10" by simp
      then have E: "e + k \<le> - 43" by (rule small)
      show "real_of_int q * pE \<le> 900"
      proof (cases "e + k = - 43")
        case False
        with E have "e + k \<le> - 44" by simp
        then have "pE \<le> 2 powi (- 44)" unfolding pE_def by (rule powi_le)
        then have "real_of_int q * pE \<le> 2 ^ 53 * 2 powi (- 44)"
          using rq53 pE(1) rq52 by (intro mult_mono) simp_all
        also have "\<dots> = 512" by (simp add: power_int_minus)
        finally show ?thesis by simp
      next
        case True
        then have p43: "pE = 2 powi (- 43)" by (simp add: pE_def)
        have "x * D = real_of_int m * pE"
          by (simp add: x_def pE(2) mult_ac)
        then have "real_of_int m * 2 powi (- 43) = x * D" by (simp add: p43)
        also have "\<dots> \<le> (900 + 2 powi (- 44)) * D"
          using a D(1) by (simp add: mult_right_mono)
        finally have "real_of_int m * 2 powi (- 43) \<le> (900 + 2 powi (- 44)) * D" .
        then have "2 * real_of_int m \<le> (2 * (900 * 2 ^ 43) + 1) * D"
          by (simp add: power_int_minus field_simps)
        then have "real_of_int (2 * m) \<le> real_of_int ((2 * (900 * 2 ^ 43) + 1) * d)"
          using D(2) by simp
        then have "2 * m \<le> (2 * (900 * 2 ^ 43) + 1) * d" by (simp only: of_int_le_iff)
        moreover have "even (900 * 2 ^ 43 :: int)" by simp
        ultimately have "q \<le> 900 * 2 ^ 43"
          unfolding q_def by (intro rhe_le_even[OF d])
        then have "real_of_int q \<le> real_of_int (900 * 2 ^ 43)" by (simp only: of_int_le_iff)
        then have "real_of_int q \<le> 900 * 2 ^ 43" by simp
        then have "real_of_int q * 2 powi (- 43) \<le> (900 * 2 ^ 43) * 2 powi (- 43)"
          by (rule mult_right_mono) simp
        also have "\<dots> = (900::real)" by (simp add: power_int_minus)
        finally show ?thesis by (simp add: p43)
      qed
    qed
    then show ?thesis by (simp add: q_def d_def pE_def x_def)
  qed
qed

lemma bitlen_le_53: "bitlen \<bar>m\<bar> \<le> 53 \<Longrightarrow> \<bar>m\<bar> < 2 ^ 53"
proof (cases "0 < \<bar>m\<bar>")
  case False
  then show ?thesis by simp
next
  case True
  assume le: "bitlen \<bar>m\<bar> \<le> 53"
  from bitlen_bounds[OF True] have "\<bar>m\<bar> < 2 ^ nat (bitlen \<bar>m\<bar>)" by simp
  also have "(2::int) ^ nat (bitlen \<bar>m\<bar>) \<le> 2 ^ 53"
    using le by (intro power_increasing) simp_all
  finally show ?thesis .
qed

lemma round_to_double_le_900:
  "float_le_int (round_to_double m e) 900 \<longleftrightarrow> of_int m * 2 powi e \<le> 900 + (2::real) powi (- 44)"
proof (cases "bitlen \<bar>m\<bar> - 53 \<le> 0")
  case True
  then have "\<bar>m\<bar> < 2 ^ 53" by (intro bitlen_le_53) simp
  then have "(of_int m * 2 powi e \<le> (900::real)) = (of_int m * 2 powi e \<le> 900 + (2::real) powi (- 44))"
    by (rule exact_threshold)
  moreover have "round_to_double m e = finite_or_inf m e"
    using True by (simp add: round_to_double_def)
  ultimately show ?thesis by (simp only: float_le_finite_or_inf_900)
next
  case False
  define k where "k = bitlen \<bar>m\<bar> - 53"
  from False have k: "0 < k" and bl: "bitlen \<bar>m\<bar> = 53 + k" by (simp_all add: k_def)
  have "round_to_double m e = finite_or_inf (round_half_even m (2 ^ nat k)) (e + k)"
    using False by (simp add: round_to_double_def k_def Let_def)
  then show ?thesis
    by (simp only: float_le_finite_or_inf_900 round_threshold[OF k bl])
qed

lemma float_sub_exact_value:
  "real_of_int (m1 * 2 ^ nat (e1 - min e1 e2) - m2 * 2 ^ nat (e2 - min e1 e2)) * 2 powi (min e1 e2)
     = valof (Double m1 e1) - valof (Double m2 e2)"
proof -
  have a: "(2::real) ^ nat (e1 - min e1 e2) * 2 powi (min e1 e2) = 2 powi e1"
    using powi_add[of "e1 - min e1 e2" "min e1 e2"] by (simp add: powi_nat)
  have b: "(2::real) ^ nat (e2 - min e1 e2) * 2 powi (min e1 e2) = 2 powi e2"
    using powi_add[of "e2 - min e1 e2" "min e1 e2"] by (simp add: powi_nat)
  have "real_of_int (m1 * 2 ^ nat (e1 - min e1 e2) - m2 * 2 ^ nat (e2 - min e1 e2)) * 2 powi (min e1 e2)
      = real_of_int m1 * ((2::real) ^ nat (e1 - min e1 e2) * 2 powi (min e1 e2))
        - real_of_int m2 * ((2::real) ^ nat (e2 - min e1 e2) * 2 powi (min e1 e2))"
    by (simp add: algebra_simps)
  then show ?thesis unfolding a b by (simp add: valof_def)
qed

lemma float_sub_le_900:
  "float_le_int (float_sub a b) 900 \<longleftrightarrow> valof a - valof b \<le> 900 + 2 powi (- 44)"
proof -
  obtain m1 e1 where a: "a = Double m1 e1" by (cases a)
  obtain m2 e2 where b: "b = Double m2 e2" by (cases b)
  show ?thesis
    unfolding a b float_sub_def
    by (simp only: double.case Let_def round_to_double_le_900 float_sub_exact_value)
qed

lemma finite_or_inf_not_NaN: "finite_or_inf m e \<noteq> NaN"
  by (simp add: finite_or_inf_def)

lemma float_sub_not_NaN: "float_sub a b \<noteq> NaN"
  by (cases a; cases b) (simp add: float_sub_def round_to_double_def Let_def finite_or_inf_not_NaN)

lemma float_gt_not_le: "x \<noteq> NaN \<Longrightarrow> float_gt_int x n = (\<not> float_le_int x n)"
  by (cases x) (auto simp: float_gt_int_def float_le_int_def split: double.splits)

lemma float_sub_gt: "float_gt_int (float_sub a b) n = (\<not> float_le_int (float_sub a b) n)"
  by (rule float_gt_not_le[OF float_sub_not_NaN])

lemma float_sub_le_900_exact:
  "valof a - valof b \<le> 900 \<Longrightarrow> float_le_int (float_sub a b) 900"
proof -
  assume "valof a - valof b \<le> 900"
  moreover have "0 < (2::real) powi (- 44)" by simp
  ultimately have "valof a - valof b \<le> 900 + 2 powi (- 44)" by linarith
  then show ?thesis by (simp only: float_sub_le_900)
qed

lemma on_grid:
  assumes m: "\<bar>m\<bar> < 2 ^ 53" and big: "2 ^ 9 \<le> real_of_int m * 2 powi e"
  shows "\<exists>n. real_of_int m * 2 powi e = real_of_int n * 2 powi (- 43)"
proof -
  have mpos: "0 < m"
  proof (rule ccontr)
    assume "\<not> 0 < m"
    then have "real_of_int m \<le> 0" by simp
    then have "real_of_int m * 2 powi e \<le> 0" by (simp add: mult_le_0_iff)
    with big show False by simp
  qed
  from m mpos have "m < 2 ^ 53" by simp
  then have "real_of_int m < real_of_int (2 ^ 53)" by (simp only: of_int_less_iff)
  then have "real_of_int m < 2 ^ 53" by simp
  then have "real_of_int m * 2 powi e < 2 ^ 53 * 2 powi e"
    by (simp add: mult_strict_right_mono)
  with big have "(2::real) ^ 9 < 2 ^ 53 * 2 powi e" by linarith
  then have "(2::real) powi (- 44) < 2 powi e"
    by (simp add: power_int_minus field_simps)
  then have "- 44 < e" by (rule powi_less_exp)
  then have e43: "0 \<le> e + 43" by simp
  have "(2::real) powi e = 2 powi (e + 43) * 2 powi (- 43)"
    using powi_add[of "e + 43" "- 43"] by simp
  also have "\<dots> = 2 ^ nat (e + 43) * 2 powi (- 43)"
    using e43 by (simp add: powi_nat)
  finally have "real_of_int m * 2 powi e = real_of_int (m * 2 ^ nat (e + 43)) * 2 powi (- 43)"
    by simp
  then show ?thesis ..
qed

lemma float_sub_le_900_large:
  assumes a: "is_double a" and b: "is_double b" and big: "512 \<le> valof b"
  shows "float_le_int (float_sub a b) 900 \<longleftrightarrow> valof a - valof b \<le> 900"
proof -
  have pos: "0 < (2::real) powi (- 44)" by simp
  have "(valof a - valof b \<le> 900 + 2 powi (- 44)) = (valof a - valof b \<le> 900)"
  proof
    assume "valof a - valof b \<le> 900"
    with pos show "valof a - valof b \<le> 900 + 2 powi (- 44)" by linarith
  next
    assume le: "valof a - valof b \<le> 900 + 2 powi (- 44)"
    show "valof a - valof b \<le> 900"
    proof (rule ccontr)
      assume "\<not> valof a - valof b \<le> 900"
      then have gt: "900 < valof a - valof b" by simp
      obtain m1 e1 where A: "a = Double m1 e1" by (cases a)
      obtain m2 e2 where B: "b = Double m2 e2" by (cases b)
      from a A have m1: "\<bar>m1\<bar> < 2 ^ 53" by (simp add: is_double_def)
      from b B have m2: "\<bar>m2\<bar> < 2 ^ 53" by (simp add: is_double_def)
      from big B have big2: "2 ^ 9 \<le> real_of_int m2 * 2 powi e2" by (simp add: valof_def)
      from gt big have "2 ^ 9 \<le> valof a" by simp
      with A have big1: "2 ^ 9 \<le> real_of_int m1 * 2 powi e1" by (simp add: valof_def)
      from on_grid[OF m1 big1] obtain n1
        where n1: "real_of_int m1 * 2 powi e1 = real_of_int n1 * 2 powi (- 43)" ..
      from on_grid[OF m2 big2] obtain n2
        where n2: "real_of_int m2 * 2 powi e2 = real_of_int n2 * 2 powi (- 43)" ..
      have d: "valof a - valof b = real_of_int (n1 - n2) * 2 powi (- 43)"
        by (simp add: A B valof_def n1 n2 algebra_simps)
      from gt d have "900 < real_of_int (n1 - n2) * 2 powi (- 43)" by simp
      then have "900 * 2 ^ 43 < real_of_int (n1 - n2)"
        by (simp add: power_int_minus field_simps)
      then have "real_of_int (900 * 2 ^ 43) < real_of_int (n1 - n2)" by simp
      then have "900 * 2 ^ 43 < n1 - n2" by (simp only: of_int_less_iff)
      then have "900 * 2 ^ 43 + 1 \<le> n1 - n2" by simp
      then have "real_of_int (900 * 2 ^ 43 + 1) \<le> real_of_int (n1 - n2)"
        by (simp only: of_int_le_iff)
      then have "900 * 2 ^ 43 + 1 \<le> real_of_int (n1 - n2)" by simp
      then have "900 + 2 powi (- 43) \<le> real_of_int (n1 - n2) * 2 powi (- 43)"
        by (simp add: power_int_minus field_simps)
      with le d have "900 + (2::real) powi (- 43) \<le> 900 + 2 powi (- 44)" by simp
      then show False by (simp add: power_int_minus)
    qed
  qed
  then show ?thesis by (simp only: float_sub_le_900)
qed

section \<open>The operations in closed form\<close>

lemma SESSION_TIMEOUT_900: "SESSION_TIMEOUT = 900"
  by (simp add: SESSION_TIMEOUT_def)

lemma is_authenticated_eq:
  "is_authenticated session_id w =
     Inr (case map_of (authenticated_sessions w) session_id of
            None \<Rightarrow> (False, w)
          | Some (account_number, last_activity) \<Rightarrow>
              (float_le_int (float_sub (clock w (reads w)) last_activity) 900,
               w\<lparr>reads := Suc (reads w)\<rparr>))"
  by (simp add: is_authenticated_def dict_contains_def dict_getitem_def time_time_def
      SESSION_TIMEOUT_def split: option.splits prod.splits)

lemma expired_at_eq:
  "expired_at t =
     (\<lambda>(session_id, account_number, last_activity). float_gt_int (float_sub t last_activity) 900)"
  by (rule ext) (simp add: expired_at_def SESSION_TIMEOUT_def split: prod.splits)

lemma authenticate_session_eq:
  "authenticate_session session_id account_number w =
     Inr ((), w\<lparr>reads := Suc (reads w),
               authenticated_sessions :=
                 AList.update session_id (account_number, clock w (reads w)) (authenticated_sessions w)\<rparr>)"
  by (simp add: authenticate_session_def time_time_def dict_setitem_def)

lemma get_authenticated_account_eq:
  "get_authenticated_account session_id w =
     Inr (map_option fst (map_of (authenticated_sessions w) session_id), w)"
  by (simp add: get_authenticated_account_def dict_contains_def dict_getitem_def
      split: option.splits prod.splits)

lemma update_session_activity_eq:
  "update_session_activity session_id w =
     Inr ((), case map_of (authenticated_sessions w) session_id of
                None \<Rightarrow> w
              | Some (account_number, last_activity) \<Rightarrow>
                  w\<lparr>reads := Suc (reads w),
                    authenticated_sessions :=
                      AList.update session_id (account_number, clock w (reads w))
                        (authenticated_sessions w)\<rparr>)"
  by (simp add: update_session_activity_def dict_contains_def dict_getitem_def time_time_def
      dict_setitem_def split: option.splits prod.splits)

lemma end_session_eq:
  "end_session session_id w =
     Inr (map_of (authenticated_sessions w) session_id \<noteq> None,
          w\<lparr>authenticated_sessions := AList.delete session_id (authenticated_sessions w)\<rparr>)"
proof (cases "map_of (authenticated_sessions w) session_id")
  case None
  then have "session_id \<notin> fst ` set (authenticated_sessions w)"
    by (simp add: map_of_eq_None_iff)
  then have "AList.delete session_id (authenticated_sessions w) = authenticated_sessions w"
    by (rule delete_id)
  with None show ?thesis
    by (simp add: end_session_def dict_contains_def)
next
  case (Some r)
  then show ?thesis
    by (simp add: end_session_def dict_contains_def dict_delitem_def)
qed

lemma collect_expired_eq:
  "collect_expired t items = map fst (filter (expired_at t) items)"
  by (induction t items rule: collect_expired.induct) (simp_all add: expired_at_def)

lemma delete_filter: "AList.delete k d = filter (\<lambda>item. fst item \<noteq> k) d"
  by (induction d) (auto simp: AList.delete_eq)

lemma remove_sessions_eq:
  "remove_sessions ks d = Inr (filter (\<lambda>item. fst item \<notin> set ks) d)"
proof (induction ks arbitrary: d)
  case Nil
  show ?case by simp
next
  case (Cons k ks)
  have absent: "filter (\<lambda>item. fst item \<noteq> k) d = d" if "map_of d k = None"
  proof -
    from that have "k \<notin> fst ` set d" by (simp add: map_of_eq_None_iff)
    then show ?thesis by (auto simp: filter_id_conv)
  qed
  have split: "filter (\<lambda>item. fst item \<notin> set (k # ks)) d
      = filter (\<lambda>item. fst item \<notin> set ks) (filter (\<lambda>item. fst item \<noteq> k) d)"
    by (auto intro: filter_cong)
  show ?case
  proof (cases "map_of d k")
    case None
    with Cons absent split show ?thesis
      by (simp add: dict_contains_def)
  next
    case (Some r)
    with Cons split show ?thesis
      by (simp add: dict_contains_def dict_delitem_def delete_filter)
  qed
qed

lemma cleanup_expired_sessions_eq:
  "cleanup_expired_sessions w =
     Inr (map fst (filter (expired_at (clock w (reads w))) (authenticated_sessions w)),
          w\<lparr>reads := Suc (reads w),
            authenticated_sessions :=
              filter (\<lambda>item. fst item \<notin>
                        fst ` set (filter (expired_at (clock w (reads w))) (authenticated_sessions w)))
                (authenticated_sessions w)\<rparr>)"
  by (simp add: cleanup_expired_sessions_def time_time_def dict_items_def collect_expired_eq
      remove_sessions_eq)

lemma filter_keys_of_filter:
  assumes "distinct (map fst d)"
  shows "filter (\<lambda>item. fst item \<notin> fst ` set (filter P d)) d = filter (\<lambda>item. \<not> P item) d"
proof (rule filter_cong[OF refl])
  fix x assume x: "x \<in> set d"
  show "(fst x \<notin> fst ` set (filter P d)) = (\<not> P x)"
  proof
    assume "fst x \<notin> fst ` set (filter P d)"
    with x show "\<not> P x" by force
  next
    assume np: "\<not> P x"
    show "fst x \<notin> fst ` set (filter P d)"
    proof
      assume "fst x \<in> fst ` set (filter P d)"
      then obtain y where y: "y \<in> set d" "P y" "fst y = fst x" by auto
      from assms x y(1,3) have "y = x"
        by (metis eq_key_imp_eq_value prod.collapse)
      with y(2) np show False by simp
    qed
  qed
qed

lemma cleanup_expired_sessions_distinct:
  assumes "dict_ok (authenticated_sessions w)"
  shows "cleanup_expired_sessions w =
     Inr (map fst (filter (expired_at (clock w (reads w))) (authenticated_sessions w)),
          w\<lparr>reads := Suc (reads w),
            authenticated_sessions :=
              filter (\<lambda>item. \<not> expired_at (clock w (reads w)) item) (authenticated_sessions w)\<rparr>)"
  by (simp only: cleanup_expired_sessions_eq filter_keys_of_filter[OF assms[unfolded dict_ok_def]])

lemma dict_ok_update: "dict_ok d \<Longrightarrow> dict_ok (AList.update k v d)"
  by (simp add: dict_ok_def distinct_update)

lemma dict_ok_delete: "dict_ok d \<Longrightarrow> dict_ok (AList.delete k d)"
  by (simp add: dict_ok_def distinct_delete)

lemma dict_ok_filter: "dict_ok d \<Longrightarrow> dict_ok (filter P d)"
  by (simp add: dict_ok_def distinct_map_filter)

lemma map_of_filter_expired:
  assumes "dict_ok d"
  shows "map_of (filter (\<lambda>item. \<not> P item) d) k =
     (case map_of d k of None \<Rightarrow> None | Some v \<Rightarrow> if P (k, v) then None else Some v)"
  using assms
proof (induction d)
  case Nil
  show ?case by simp
next
  case (Cons a d)
  obtain k' v' where a: "a = (k', v')" by (cases a)
  from Cons.prems have ok: "dict_ok d" and fresh: "k' \<notin> fst ` set d"
    by (auto simp: dict_ok_def a)
  from fresh have none: "map_of d k' = None"
    by (simp add: map_of_eq_None_iff)
  have none': "map_of (filter (\<lambda>item. \<not> P item) d) k' = None"
    using fresh by (auto simp: map_of_eq_None_iff)
  show ?case
    using Cons.IH[OF ok] none none' by (auto simp: a split: option.splits)
qed

lemma live_at_eq:
  "(\<lambda>item. \<not> expired_at t item) =
     (\<lambda>(session_id, account_number, last_activity). float_le_int (float_sub t last_activity) 900)"
  by (rule ext) (auto simp: expired_at_eq float_sub_gt split: prod.splits)

lemma cleanup_gone:
  assumes "dict_ok d" and "k \<in> set (map fst (filter (expired_at t) d))"
  shows "map_of (filter (\<lambda>item. \<not> expired_at t item) d) k = None"
proof -
  from assms(2) obtain v where kv: "(k, v) \<in> set d" "expired_at t (k, v)" by auto
  from assms(1) kv(1) have "map_of d k = Some v"
    by (simp add: dict_ok_def)
  with kv(2) show ?thesis
    by (simp add: map_of_filter_expired[OF assms(1)])
qed

lemma map_of_update_same: "map_of (AList.update k v d) k = Some v"
  by (simp add: update_conv')

lemma map_of_update_other: "k' \<noteq> k \<Longrightarrow> map_of (AList.update k v d) k' = map_of d k'"
  by (simp add: update_conv')

lemma keys_update_present:
  "map_of d k = Some v' \<Longrightarrow> map fst (AList.update k v d) = map fst d"
  by (simp add: update_keys map_of_eq_None_iff[symmetric] del: map_of_eq_None_iff)

lemma delete_present_changes: "map_of d k = Some v \<Longrightarrow> AList.delete k d \<noteq> d"
proof
  assume "map_of d k = Some v" and "AList.delete k d = d"
  then have "map_of (AList.delete k d) k = Some v" by simp
  then show False by (simp add: delete_conv')
qed

lemma delete_absent_same: "map_of d k = None \<Longrightarrow> AList.delete k d = d"
  by (rule delete_id) (simp add: map_of_eq_None_iff)

lemma no_expired_left:
  "filter (expired_at t) (filter (\<lambda>item. \<not> expired_at t item) d) = []"
  by (simp add: filter_empty_conv)

lemma cleanup_nothing_expired:
  assumes "filter (expired_at (clock w (reads w))) (authenticated_sessions w) = []"
  shows "cleanup_expired_sessions w = Inr ([], w\<lparr>reads := Suc (reads w)\<rparr>)"
  unfolding cleanup_expired_sessions_eq assms by simp

lemma is_authenticated_value:
  "\<exists>w'. is_authenticated session_id w =
      Inr ((case map_of (authenticated_sessions w) session_id of
              None \<Rightarrow> False
            | Some (account_number, last_activity) \<Rightarrow>
                float_le_int (float_sub (clock w (reads w)) last_activity) 900),
           w')"
  by (simp add: is_authenticated_eq split: option.splits)

lemma expired_at_exact:
  "expired_at t =
     (\<lambda>(session_id, account_number, last_activity).
        valof t - valof last_activity > 900 + 2 powi (- 44))"
  by (rule ext) (auto simp: expired_at_eq float_sub_gt float_sub_le_900 split: prod.splits)

lemma live_at_exact:
  "(\<lambda>item. \<not> expired_at t item) =
     (\<lambda>(session_id, account_number, last_activity).
        valof t - valof last_activity \<le> 900 + 2 powi (- 44))"
  by (rule ext) (auto simp: expired_at_eq float_sub_gt float_sub_le_900 split: prod.splits)

lemmas float_eval =
  float_sub_def round_to_double_def finite_or_inf_def overflows_def round_half_even_def
  compute_bitlen float_le_int_def float_gt_int_def

lemma tool_call_pin_undecodable:
  "name (func tc) = str ''validate_pin'' \<Longrightarrow> loads (arguments (func tc)) = Inl JSONDecodeError \<Longrightarrow>
   tool_call_pin loads tc = Inr None"
  by (simp add: tool_call_pin_def try_validate_pin_def)

lemma tool_call_pin_other_error:
  "name (func tc) = str ''validate_pin'' \<Longrightarrow> loads (arguments (func tc)) = Inl e \<Longrightarrow>
   e \<noteq> JSONDecodeError \<Longrightarrow> tool_call_pin loads tc = Inl e"
  by (cases e) (simp_all add: tool_call_pin_def try_validate_pin_def)

lemma tool_call_pin_non_record:
  "name (func tc) = str ''validate_pin'' \<Longrightarrow> loads (arguments (func tc)) = Inr v \<Longrightarrow>
   (\<And>kvs. v \<noteq> PDict kvs) \<Longrightarrow> tool_call_pin loads tc = Inl AttributeError"
  by (cases v) (auto simp: tool_call_pin_def try_validate_pin_def)

lemma tool_call_pin_found:
  "name (func tc) = str ''validate_pin'' \<Longrightarrow> loads (arguments (func tc)) = Inr (PDict kvs) \<Longrightarrow>
   map_of kvs (str ''pin'') = Some pin \<Longrightarrow> truthy pin \<Longrightarrow>
   tool_call_pin loads tc = Inr (Some pin)"
  by (simp add: tool_call_pin_def try_validate_pin_def)

lemmas scan_eval =
  get_cached_pin_from_conversation_def message_pin_def tool_call_pin_def try_validate_pin_def
  loads_examples_def isdigit_def isdigit_char_def digit_ranges_def decimal_digit_def str_def

lemma user_pin_examples:
  "get_cached_pin_from_conversation loads
     [\<lparr>role = str ''user'', content = str ''1234'', tool_calls = tcs\<rparr>]
     = Inr (Some (PStr (str ''1234'')))"
  "get_cached_pin_from_conversation loads
     [\<lparr>role = str ''user'', content = str ''12a4'', tool_calls = tcs\<rparr>] = Inr None"
  "get_cached_pin_from_conversation loads
     [\<lparr>role = str ''user'', content = str ''12345'', tool_calls = tcs\<rparr>] = Inr None"
  "get_cached_pin_from_conversation loads
     [\<lparr>role = str ''system'', content = str ''1234'', tool_calls = tcs\<rparr>] = Inr None"
  "get_cached_pin_from_conversation loads
     [\<lparr>role = str ''user'', content = str ''1111'', tool_calls = tcs\<rparr>,
      \<lparr>role = str ''user'', content = str ''2222'', tool_calls = tcs\<rparr>]
     = Inr (Some (PStr (str ''2222'')))"
  "get_cached_pin_from_conversation loads [] = Inr None"
  by (simp_all add: get_cached_pin_from_conversation_def message_pin_def isdigit_def
      isdigit_char_def digit_ranges_def str_def)

lemma digit_ranges_count: "sum_list (map (\<lambda>(lo, hi). hi - lo + 1) digit_ranges) = 788"
  by (simp add: digit_ranges_def)

section \<open>The claims\<close>

text \<open>
  C1. The claim compares the exact difference of the two timestamps with 900. The code
  subtracts two doubles, and the difference it gets is rounded: with a last activity at
  \<open>124 - 2 ^ -46\<close> and the clock at \<open>1024\<close>, more than 900 seconds have passed, the
  computed difference is \<open>900.0\<close>, and \<open>is_authenticated\<close> returns true.
\<close>

theorem is_authenticated_true_past_900:
  "is_double (Double 8725724278030335 (- 46)) \<and> is_double (Double 1024 0)
   \<and> valof (Double 8725724278030335 (- 46)) = 124 - 1 / 2 ^ 46
   \<and> valof (Double 1024 0) - valof (Double 8725724278030335 (- 46)) > 900
   \<and> is_authenticated (str ''s'')
        \<lparr>authenticated_sessions = [(str ''s'', (str ''ACC1'', Double 8725724278030335 (- 46)))],
         clock = (\<lambda>n. Double 1024 0), reads = 0\<rparr>
      = Inr (True,
          \<lparr>authenticated_sessions = [(str ''s'', (str ''ACC1'', Double 8725724278030335 (- 46)))],
           clock = (\<lambda>n. Double 1024 0), reads = Suc 0\<rparr>)"
  by (simp add: is_double_def valof_def is_authenticated_eq float_eval)

text \<open>
  C1, as amended. For every session id and every state of the store,
  \<open>is_authenticated\<close> returns (it raises nothing), and it returns true exactly when the
  store holds a record for the id and the difference of the clock's reading and the last
  activity, as the code computes it in double precision, is at most 900 (the value of
  \<open>SESSION_TIMEOUT\<close>), the boundary included; that is exactly when the exact difference
  is at most \<open>900 + 2 ^ -44\<close> seconds. The store after the call is the store before it,
  expired records included.
\<close>

theorem is_authenticated_iff_live_record:
  "\<exists>b w'. is_authenticated session_id w = Inr (b, w')
     \<and> authenticated_sessions w' = authenticated_sessions w
     \<and> clock w' = clock w
     \<and> SESSION_TIMEOUT = 900
     \<and> b = (\<exists>account_number last_activity.
              map_of (authenticated_sessions w) session_id = Some (account_number, last_activity)
              \<and> float_le_int (float_sub (clock w (reads w)) last_activity) 900)
     \<and> b = (\<exists>account_number last_activity.
              map_of (authenticated_sessions w) session_id = Some (account_number, last_activity)
              \<and> valof (clock w (reads w)) - valof last_activity \<le> 900 + 2 powi (- 44))"
  by (cases "map_of (authenticated_sessions w) session_id")
    (auto simp: is_authenticated_eq SESSION_TIMEOUT_900 float_sub_le_900)

text \<open>
  C2. The claim has the cleanup remove every record whose exact age exceeds 900 seconds.
  With a last activity at \<open>124 - 2 ^ -46\<close> and the clock at \<open>1024\<close> the age exceeds
  900, the computed difference is \<open>900.0\<close>, and the cleanup returns the empty list and
  keeps the record.
\<close>

theorem cleanup_keeps_record_past_900:
  "is_double (Double 8725724278030335 (- 46)) \<and> is_double (Double 1024 0)
   \<and> valof (Double 1024 0) - valof (Double 8725724278030335 (- 46)) > 900
   \<and> cleanup_expired_sessions
        \<lparr>authenticated_sessions = [(str ''s'', (str ''ACC1'', Double 8725724278030335 (- 46)))],
         clock = (\<lambda>n. Double 1024 0), reads = 0\<rparr>
      = Inr ([],
          \<lparr>authenticated_sessions = [(str ''s'', (str ''ACC1'', Double 8725724278030335 (- 46)))],
           clock = (\<lambda>n. Double 1024 0), reads = Suc 0\<rparr>)"
  by (simp add: is_double_def valof_def cleanup_expired_sessions_eq expired_at_def
      SESSION_TIMEOUT_900 float_eval)

text \<open>
  C2, as amended. \<open>cleanup_expired_sessions\<close> reads the clock once, before anything
  else. Of a store that holds every key once it returns, in the order in which the store
  iterates, the ids of exactly the records for which the difference of that reading and
  the last activity, as computed in double precision, is greater than 900 (exactly when
  the exact difference is greater than \<open>900 + 2 ^ -44\<close>); the store it leaves holds the
  other records, unchanged and in their order; and \<open>get_authenticated_account\<close> then
  returns \<open>None\<close> for each id returned.
\<close>

theorem cleanup_expired_sessions_removes_stale:
  assumes "dict_ok (authenticated_sessions w)"
  shows "\<exists>w'. cleanup_expired_sessions w =
            Inr (map fst (filter (\<lambda>(session_id, account_number, last_activity).
                                   float_gt_int (float_sub (clock w (reads w)) last_activity) 900)
                           (authenticated_sessions w)), w')
          \<and> reads w' = Suc (reads w) \<and> clock w' = clock w
          \<and> authenticated_sessions w' =
              filter (\<lambda>(session_id, account_number, last_activity).
                        float_le_int (float_sub (clock w (reads w)) last_activity) 900)
                (authenticated_sessions w)
          \<and> list_all (\<lambda>session_id. get_authenticated_account session_id w' = Inr (None, w'))
              (map fst (filter (\<lambda>(session_id, account_number, last_activity).
                                   float_gt_int (float_sub (clock w (reads w)) last_activity) 900)
                           (authenticated_sessions w)))
          \<and> float_gt_int (float_sub t u) 900 = (valof t - valof u > 900 + 2 powi (- 44))
          \<and> float_le_int (float_sub t u) 900 = (valof t - valof u \<le> 900 + 2 powi (- 44))"
proof -
  let ?t = "clock w (reads w)"
  let ?S = "authenticated_sessions w"
  let ?E = "\<lambda>(session_id :: pystr, account_number :: pystr, last_activity).
              float_gt_int (float_sub ?t last_activity) 900"
  let ?L = "\<lambda>(session_id :: pystr, account_number :: pystr, last_activity).
              float_le_int (float_sub ?t last_activity) 900"
  let ?w' = "w\<lparr>reads := Suc (reads w), authenticated_sessions := filter ?L ?S\<rparr>"
  have run: "cleanup_expired_sessions w = Inr (map fst (filter ?E ?S), ?w')"
    by (rule cleanup_expired_sessions_distinct[OF assms, unfolded live_at_eq, unfolded expired_at_eq])
  have all: "list_all (\<lambda>k. get_authenticated_account k ?w' = Inr (None, ?w'))
      (map fst (filter ?E ?S))"
    unfolding list_all_iff get_authenticated_account_eq
  proof
    fix k
    assume "k \<in> set (map fst (filter ?E ?S))"
    then have "map_of (filter ?L ?S) k = None"
      by (rule cleanup_gone[OF assms, unfolded live_at_eq, unfolded expired_at_eq])
    then show "Inr (map_option fst (map_of (authenticated_sessions ?w') k), ?w') = Inr (None, ?w')"
      by simp
  qed
  have gt: "float_gt_int (float_sub t u) 900 = (valof t - valof u > 900 + 2 powi (- 44))"
    by (auto simp: float_sub_gt float_sub_le_900)
  have le: "float_le_int (float_sub t u) 900 = (valof t - valof u \<le> 900 + 2 powi (- 44))"
    by (rule float_sub_le_900)
  have goal: "cleanup_expired_sessions w = Inr (map fst (filter ?E ?S), ?w')
      \<and> reads ?w' = Suc (reads w) \<and> clock ?w' = clock w
      \<and> authenticated_sessions ?w' = filter ?L ?S
      \<and> list_all (\<lambda>k. get_authenticated_account k ?w' = Inr (None, ?w')) (map fst (filter ?E ?S))
      \<and> float_gt_int (float_sub t u) 900 = (valof t - valof u > 900 + 2 powi (- 44))
      \<and> float_le_int (float_sub t u) 900 = (valof t - valof u \<le> 900 + 2 powi (- 44))"
    using run all gt le by (intro conjI) simp_all
  show ?thesis
    by (rule exI[of _ ?w']) (rule goal)
qed

theorem cleanup_expired_sessions_removes_stale_witness:
  "dict_ok [(str ''s1'', (str ''A'', Double 0 0)), (str ''s2'', (str ''B'', Double 500 0)),
            (str ''s3'', (str ''C'', Double 50 0))]
   \<and> cleanup_expired_sessions
        \<lparr>authenticated_sessions =
           [(str ''s1'', (str ''A'', Double 0 0)), (str ''s2'', (str ''B'', Double 500 0)),
            (str ''s3'', (str ''C'', Double 50 0))],
         clock = (\<lambda>n. Double 1000 0), reads = 0\<rparr>
      = Inr ([str ''s1'', str ''s3''],
          \<lparr>authenticated_sessions = [(str ''s2'', (str ''B'', Double 500 0))],
           clock = (\<lambda>n. Double 1000 0), reads = Suc 0\<rparr>)"
proof -
  let ?W = "\<lparr>authenticated_sessions =
           [(str ''s1'', (str ''A'', Double 0 0)), (str ''s2'', (str ''B'', Double 500 0)),
            (str ''s3'', (str ''C'', Double 50 0))],
         clock = (\<lambda>n. Double 1000 0), reads = 0\<rparr>"
  have ok: "dict_ok (authenticated_sessions ?W)"
    by (simp add: dict_ok_def str_def)
  from cleanup_expired_sessions_removes_stale[OF ok]
  obtain w' where run: "cleanup_expired_sessions ?W = Inr ([str ''s1'', str ''s3''], w')"
    and r: "reads w' = Suc 0" and c: "clock w' = (\<lambda>n. Double 1000 0)"
    and s: "authenticated_sessions w' = [(str ''s2'', (str ''B'', Double 500 0))]"
    by (auto simp: float_eval)
  from r c s have "w' = \<lparr>authenticated_sessions = [(str ''s2'', (str ''B'', Double 500 0))],
      clock = (\<lambda>n. Double 1000 0), reads = Suc 0\<rparr>"
    by (cases w') simp
  with run ok show ?thesis by simp
qed

text \<open>
  C3. The claim has \<open>is_authenticated\<close> false as soon as more than 900 seconds have
  passed since \<open>authenticate_session\<close>. Authenticated at \<open>124 - 2 ^ -46\<close> and asked at
  \<open>1024\<close>, more than 900 seconds later, it returns true: the computed difference is
  \<open>900.0\<close>.
\<close>

theorem authenticated_past_900_after_authenticate:
  "is_double (Double 8725724278030335 (- 46)) \<and> is_double (Double 1024 0)
   \<and> valof (Double 1024 0) - valof (Double 8725724278030335 (- 46)) > 900
   \<and> (\<exists>w1 w2.
        authenticate_session (str ''s'') (str ''ACC1'')
          (init (\<lambda>n. if n = 0 then Double 8725724278030335 (- 46) else Double 1024 0))
          = Inr ((), w1)
        \<and> is_authenticated (str ''s'') w1 = Inr (True, w2)
        \<and> get_authenticated_account (str ''s'') w2 = Inr (Some (str ''ACC1''), w2))"
  by (simp add: is_double_def valof_def init_def authenticate_session_eq is_authenticated_eq
      get_authenticated_account_eq float_eval)

text \<open>
  C3, as amended. \<open>get_authenticated_account\<close> returns the account number of the record
  stored for the session id, whenever there is one and however old it is, and \<open>None\<close>
  when there is none; it raises nothing and changes nothing. In particular, when a
  record's last activity lies more than \<open>900 + 2 ^ -44\<close> seconds before the clock's
  reading, which is when the difference computed in double precision exceeds 900 (be the
  record as found, or just written by \<open>authenticate_session\<close> or
  \<open>update_session_activity\<close>), \<open>is_authenticated\<close> returns false and
  \<open>get_authenticated_account\<close> still returns the account.
\<close>

theorem get_authenticated_account_ignores_expiry:
  "get_authenticated_account session_id w =
     Inr (map_option fst (map_of (authenticated_sessions w) session_id), w)
   \<and> (map_of (authenticated_sessions w) session_id = Some (account_number, last_activity)
        \<and> valof (clock w (reads w)) - valof last_activity > 900 + 2 powi (- 44) \<longrightarrow>
      (\<exists>w'. is_authenticated session_id w = Inr (False, w')
         \<and> get_authenticated_account session_id w' = Inr (Some account_number, w')))
   \<and> (valof (clock w (Suc (reads w))) - valof (clock w (reads w)) > 900 + 2 powi (- 44) \<longrightarrow>
      (\<exists>w1 w2. authenticate_session session_id account_number w = Inr ((), w1)
         \<and> is_authenticated session_id w1 = Inr (False, w2)
         \<and> get_authenticated_account session_id w2 = Inr (Some account_number, w2)))
   \<and> (map_of (authenticated_sessions w) session_id = Some (account_number, last_activity)
        \<and> valof (clock w (Suc (reads w))) - valof (clock w (reads w)) > 900 + 2 powi (- 44) \<longrightarrow>
      (\<exists>w1 w2. update_session_activity session_id w = Inr ((), w1)
         \<and> is_authenticated session_id w1 = Inr (False, w2)
         \<and> get_authenticated_account session_id w2 = Inr (Some account_number, w2)))
   \<and> float_le_int (float_sub t u) 900 = (valof t - valof u \<le> 900 + 2 powi (- 44))"
proof (intro conjI impI)
  show "get_authenticated_account session_id w =
     Inr (map_option fst (map_of (authenticated_sessions w) session_id), w)"
    by (rule get_authenticated_account_eq)
next
  assume "map_of (authenticated_sessions w) session_id = Some (account_number, last_activity)
        \<and> valof (clock w (reads w)) - valof last_activity > 900 + 2 powi (- 44)"
  then show "\<exists>w'. is_authenticated session_id w = Inr (False, w')
         \<and> get_authenticated_account session_id w' = Inr (Some account_number, w')"
    by (simp add: is_authenticated_eq get_authenticated_account_eq float_sub_le_900)
next
  assume "valof (clock w (Suc (reads w))) - valof (clock w (reads w)) > 900 + 2 powi (- 44)"
  then show "\<exists>w1 w2. authenticate_session session_id account_number w = Inr ((), w1)
         \<and> is_authenticated session_id w1 = Inr (False, w2)
         \<and> get_authenticated_account session_id w2 = Inr (Some account_number, w2)"
    by (simp add: authenticate_session_eq is_authenticated_eq get_authenticated_account_eq
        map_of_update_same float_sub_le_900)
next
  assume "map_of (authenticated_sessions w) session_id = Some (account_number, last_activity)
        \<and> valof (clock w (Suc (reads w))) - valof (clock w (reads w)) > 900 + 2 powi (- 44)"
  then show "\<exists>w1 w2. update_session_activity session_id w = Inr ((), w1)
         \<and> is_authenticated session_id w1 = Inr (False, w2)
         \<and> get_authenticated_account session_id w2 = Inr (Some account_number, w2)"
    by (simp add: update_session_activity_eq is_authenticated_eq get_authenticated_account_eq
        map_of_update_same float_sub_le_900)
next
  show "float_le_int (float_sub t u) 900 = (valof t - valof u \<le> 900 + 2 powi (- 44))"
    by (rule float_sub_le_900)
qed

theorem get_authenticated_account_ignores_expiry_witness:
  "map_of [(str ''s'', (str ''ACC1'', Double 0 0))] (str ''s'') = Some (str ''ACC1'', Double 0 0)
   \<and> valof (Double 1000 0) - valof (Double 0 0) > 900 + 2 powi (- 44)
   \<and> valof (Double 2000 0) - valof (Double 1000 0) > 900 + 2 powi (- 44)
   \<and> (\<exists>w'. is_authenticated (str ''s'')
              \<lparr>authenticated_sessions = [(str ''s'', (str ''ACC1'', Double 0 0))],
               clock = (\<lambda>n. Double (1000 + 1000 * int n) 0), reads = 0\<rparr> = Inr (False, w')
         \<and> get_authenticated_account (str ''s'') w' = Inr (Some (str ''ACC1''), w'))
   \<and> (\<exists>w1 w2. authenticate_session (str ''s'') (str ''ACC1'')
              \<lparr>authenticated_sessions = [(str ''s'', (str ''ACC1'', Double 0 0))],
               clock = (\<lambda>n. Double (1000 + 1000 * int n) 0), reads = 0\<rparr> = Inr ((), w1)
         \<and> is_authenticated (str ''s'') w1 = Inr (False, w2)
         \<and> get_authenticated_account (str ''s'') w2 = Inr (Some (str ''ACC1''), w2))
   \<and> (\<exists>w1 w2. update_session_activity (str ''s'')
              \<lparr>authenticated_sessions = [(str ''s'', (str ''ACC1'', Double 0 0))],
               clock = (\<lambda>n. Double (1000 + 1000 * int n) 0), reads = 0\<rparr> = Inr ((), w1)
         \<and> is_authenticated (str ''s'') w1 = Inr (False, w2)
         \<and> get_authenticated_account (str ''s'') w2 = Inr (Some (str ''ACC1''), w2))"
proof -
  let ?W = "\<lparr>authenticated_sessions = [(str ''s'', (str ''ACC1'', Double 0 0))],
               clock = (\<lambda>n. Double (1000 + 1000 * int n) 0), reads = 0\<rparr>"
  have small: "(2::real) powi (- 44) < 1" by (simp add: power_int_minus)
  have a: "valof (Double 1000 0) - valof (Double 0 0) > 900 + 2 powi (- 44)"
    using small by (simp add: valof_def)
  have b: "valof (Double 2000 0) - valof (Double 1000 0) > 900 + 2 powi (- 44)"
    using small by (simp add: valof_def)
  from get_authenticated_account_ignores_expiry
    [of "str ''s''" ?W "str ''ACC1''" "Double 0 0"] a b
  show ?thesis by simp
qed

text \<open>
  C4. The claim has a malformed payload of a \<open>validate_pin\<close> invocation skipped and
  never raised to the caller. That holds of a payload that is not JSON: the scan goes on
  and finds the older PIN. A payload that is JSON but no object, here \<open>null\<close>, is not
  skipped: \<open>args.get\<close> raises \<open>AttributeError\<close>, which the handler (for
  \<open>JSONDecodeError\<close> only) does not catch, and the caller gets the exception instead of
  the older PIN.
\<close>

theorem non_object_payload_raises:
  \<open>get_cached_pin_from_conversation loads_examples
     [\<lparr>role = str ''user'', content = str ''1234'', tool_calls = None\<rparr>,
      \<lparr>role = str ''assistant'', content = [],
       tool_calls = Some [\<lparr>func = \<lparr>name = str ''validate_pin'', arguments = str ''not-json''\<rparr>\<rparr>]\<rparr>]
     = Inr (Some (PStr (str ''1234'')))
   \<and> get_cached_pin_from_conversation loads_examples
     [\<lparr>role = str ''user'', content = str ''1234'', tool_calls = None\<rparr>,
      \<lparr>role = str ''assistant'', content = [],
       tool_calls = Some [\<lparr>func = \<lparr>name = str ''validate_pin'', arguments = str ''null''\<rparr>\<rparr>]\<rparr>]
     = Inl AttributeError\<close>
  by (simp add: scan_eval)

text \<open>
  C5. The claim takes a content of four decimal digits for a PIN, and has a conversation
  in which no message matches yield \<open>None\<close>. The code tests \<open>content.isdigit()\<close>,
  which also accepts digits that are no decimal digits: the message whose content is four
  times the superscript two (U+00B2) is returned as the PIN, also ahead of an older message
  \<open>1234\<close>.
\<close>

theorem superscript_digits_taken_for_pin:
  "\<not> list_all decimal_digit [178, 178, 178, 178]
   \<and> get_cached_pin_from_conversation loads_examples
       [\<lparr>role = str ''user'', content = [178, 178, 178, 178], tool_calls = None\<rparr>]
     = Inr (Some (PStr [178, 178, 178, 178]))
   \<and> get_cached_pin_from_conversation loads_examples
       [\<lparr>role = str ''user'', content = str ''1234'', tool_calls = None\<rparr>,
        \<lparr>role = str ''user'', content = [178, 178, 178, 178], tool_calls = None\<rparr>]
     = Inr (Some (PStr [178, 178, 178, 178]))"
  by (simp add: scan_eval)

text \<open>
  C6. The claim has an invocation of \<open>validate_pin\<close> skipped when its payload does not
  parse as a structured record, and the scan go on to the next invocation. That holds of
  a payload that is not JSON: the pin of the next invocation is returned. With the payload
  \<open>[1]\<close>, which is JSON but no record, the scan does not go on: \<open>args.get\<close> raises
  \<open>AttributeError\<close> and the pin of the next invocation is never reached.
\<close>

theorem non_record_payload_aborts_scan:
  \<open>get_cached_pin_from_conversation loads_examples
     [\<lparr>role = str ''assistant'', content = [],
       tool_calls = Some
         [\<lparr>func = \<lparr>name = str ''validate_pin'', arguments = str ''not-json''\<rparr>\<rparr>,
          \<lparr>func = \<lparr>name = str ''validate_pin'', arguments = str ''{"pin":"5678"}''\<rparr>\<rparr>]\<rparr>]
     = Inr (Some (PStr (str ''5678'')))
   \<and> get_cached_pin_from_conversation loads_examples
     [\<lparr>role = str ''assistant'', content = [],
       tool_calls = Some
         [\<lparr>func = \<lparr>name = str ''validate_pin'', arguments = str ''[1]''\<rparr>\<rparr>,
          \<lparr>func = \<lparr>name = str ''validate_pin'', arguments = str ''{"pin":"5678"}''\<rparr>\<rparr>]\<rparr>]
     = Inl AttributeError\<close>
  by (simp add: scan_eval)

text \<open>
  C7. \<open>authenticate_session\<close> always returns, with no value and no error. The store
  then holds, for the session id, the account given and the time read from the clock, be
  there a record for the id before or not; the records of the other ids are as before.
  Right after it \<open>get_authenticated_account\<close> returns the account, and
  \<open>is_authenticated\<close> returns true, provided the clock's next reading is at most 900
  seconds after the one stored.
\<close>

theorem authenticate_session_sets_record:
  "\<exists>w1. authenticate_session session_id account_number w = Inr ((), w1)
     \<and> map_of (authenticated_sessions w1) session_id = Some (account_number, clock w (reads w))
     \<and> (\<forall>other. other \<noteq> session_id \<longrightarrow>
           map_of (authenticated_sessions w1) other = map_of (authenticated_sessions w) other)
     \<and> get_authenticated_account session_id w1 = Inr (Some account_number, w1)
     \<and> (valof (clock w (Suc (reads w))) - valof (clock w (reads w)) \<le> 900 \<longrightarrow>
           (\<exists>w2. is_authenticated session_id w1 = Inr (True, w2)))"
  by (simp add: authenticate_session_eq get_authenticated_account_eq is_authenticated_eq
      map_of_update_same map_of_update_other float_sub_le_900_exact)

theorem authenticate_session_sets_record_witness:
  "valof (Double 1 0) - valof (Double 0 0) \<le> 900 \<and> str ''t'' \<noteq> str ''s''
   \<and> (\<exists>w1 w2. authenticate_session (str ''s'') (str ''ACC1'') (init (\<lambda>n. Double (int n) 0))
            = Inr ((), w1)
         \<and> map_of (authenticated_sessions w1) (str ''s'') = Some (str ''ACC1'', Double 0 0)
         \<and> map_of (authenticated_sessions w1) (str ''t'') = None
         \<and> get_authenticated_account (str ''s'') w1 = Inr (Some (str ''ACC1''), w1)
         \<and> is_authenticated (str ''s'') w1 = Inr (True, w2))"
proof -
  let ?c = "\<lambda>n. Double (int n) 0"
  have ne: "str ''t'' \<noteq> str ''s''" by (simp add: str_def)
  have near: "valof (Double 1 0) - valof (Double 0 0) \<le> 900" by (simp add: valof_def)
  from authenticate_session_sets_record[of "str ''s''" "str ''ACC1''" "init ?c"]
  obtain w1 where
    a: "authenticate_session (str ''s'') (str ''ACC1'') (init ?c) = Inr ((), w1)"
    and b: "map_of (authenticated_sessions w1) (str ''s'') = Some (str ''ACC1'', Double 0 0)"
    and c: "\<forall>other. other \<noteq> str ''s'' \<longrightarrow>
           map_of (authenticated_sessions w1) other = map_of (authenticated_sessions (init ?c)) other"
    and d: "get_authenticated_account (str ''s'') w1 = Inr (Some (str ''ACC1''), w1)"
    and e: "valof (clock (init ?c) (Suc (reads (init ?c)))) - valof (clock (init ?c) (reads (init ?c))) \<le> 900 \<longrightarrow>
           (\<exists>w2. is_authenticated (str ''s'') w1 = Inr (True, w2))"
    by (auto simp: init_def)
  from c ne have t: "map_of (authenticated_sessions w1) (str ''t'') = None"
    by (simp add: init_def)
  from e near obtain w2 where f: "is_authenticated (str ''s'') w1 = Inr (True, w2)"
    by (auto simp: init_def)
  from a b t d f ne near show ?thesis by auto
qed

text \<open>
  C8. \<open>end_session\<close> always returns. It returns true exactly when the store holds a
  record for the session id, which is exactly when the store changes; the store it leaves
  is the store without the records of that id. A second call returns false and changes
  nothing: after \<open>authenticate_session\<close> the first \<open>end_session\<close> returns true and
  the next one false, and on a new manager it returns false.
\<close>

theorem end_session_true_once:
  "\<exists>b w'. end_session session_id w = Inr (b, w')
     \<and> b = (\<exists>r. map_of (authenticated_sessions w) session_id = Some r)
     \<and> b = (authenticated_sessions w' \<noteq> authenticated_sessions w)
     \<and> authenticated_sessions w' =
         filter (\<lambda>item. fst item \<noteq> session_id) (authenticated_sessions w)
     \<and> map_of (authenticated_sessions w') session_id = None
     \<and> clock w' = clock w \<and> reads w' = reads w
     \<and> end_session session_id w' = Inr (False, w')
     \<and> (\<exists>w1 w2. authenticate_session session_id account_number w = Inr ((), w1)
           \<and> end_session session_id w1 = Inr (True, w2)
           \<and> end_session session_id w2 = Inr (False, w2))
     \<and> end_session session_id (init c) = Inr (False, init c)"
proof -
  let ?S = "authenticated_sessions w"
  let ?w' = "w\<lparr>authenticated_sessions := AList.delete session_id ?S\<rparr>"
  have run: "end_session session_id w = Inr (map_of ?S session_id \<noteq> None, ?w')"
    by (rule end_session_eq)
  have b1: "(map_of ?S session_id \<noteq> None) = (\<exists>r. map_of ?S session_id = Some r)"
    by auto
  have b2: "(map_of ?S session_id \<noteq> None) = (authenticated_sessions ?w' \<noteq> ?S)"
    by (cases "map_of ?S session_id") (simp_all add: delete_absent_same delete_present_changes)
  have s: "authenticated_sessions ?w' = filter (\<lambda>item. fst item \<noteq> session_id) ?S"
    by (simp add: delete_filter)
  have gone: "map_of (authenticated_sessions ?w') session_id = None"
    by (simp add: delete_conv')
  have again: "end_session session_id ?w' = Inr (False, ?w')"
    by (simp add: end_session_eq delete_conv' delete_idem)
  have seq: "\<exists>w1 w2. authenticate_session session_id account_number w = Inr ((), w1)
           \<and> end_session session_id w1 = Inr (True, w2)
           \<and> end_session session_id w2 = Inr (False, w2)"
    by (simp add: authenticate_session_eq end_session_eq map_of_update_same delete_conv' delete_idem)
  have fresh: "end_session session_id (init c) = Inr (False, init c)"
    by (simp add: end_session_eq init_def)
  have "end_session session_id w = Inr (map_of ?S session_id \<noteq> None, ?w')
     \<and> (map_of ?S session_id \<noteq> None) = (\<exists>r. map_of ?S session_id = Some r)
     \<and> (map_of ?S session_id \<noteq> None) = (authenticated_sessions ?w' \<noteq> ?S)
     \<and> authenticated_sessions ?w' = filter (\<lambda>item. fst item \<noteq> session_id) ?S
     \<and> map_of (authenticated_sessions ?w') session_id = None
     \<and> clock ?w' = clock w \<and> reads ?w' = reads w
     \<and> end_session session_id ?w' = Inr (False, ?w')
     \<and> (\<exists>w1 w2. authenticate_session session_id account_number w = Inr ((), w1)
           \<and> end_session session_id w1 = Inr (True, w2)
           \<and> end_session session_id w2 = Inr (False, w2))
     \<and> end_session session_id (init c) = Inr (False, init c)"
    using run b1 b2 s gone again seq fresh by (intro conjI) simp_all
  then show ?thesis
    by (intro exI[of _ "map_of ?S session_id \<noteq> None"] exI[of _ ?w'])
qed

text \<open>
  C9. When the store holds a record for the session id, \<open>update_session_activity\<close>
  replaces its time by the clock's reading and keeps its account number; the records of
  the other ids and the order of the keys are as before. When the store holds none, the
  call returns the state as it was and does not read the clock. After the update,
  \<open>is_authenticated\<close> compares the clock with the time of the update only: it is true
  whenever the clock's next reading is at most 900 seconds after the update, however long
  ago the record was written first.
\<close>

theorem update_session_activity_refreshes:
  "(map_of (authenticated_sessions w) session_id = Some (account_number, last_activity) \<longrightarrow>
      (\<exists>w' w''. update_session_activity session_id w = Inr ((), w')
         \<and> map_of (authenticated_sessions w') session_id = Some (account_number, clock w (reads w))
         \<and> (\<forall>other. other \<noteq> session_id \<longrightarrow>
               map_of (authenticated_sessions w') other = map_of (authenticated_sessions w) other)
         \<and> map fst (authenticated_sessions w') = map fst (authenticated_sessions w)
         \<and> is_authenticated session_id w' =
             Inr (float_le_int (float_sub (clock w (Suc (reads w))) (clock w (reads w))) 900, w'')
         \<and> (valof (clock w (Suc (reads w))) - valof (clock w (reads w)) \<le> 900 \<longrightarrow>
               is_authenticated session_id w' = Inr (True, w''))))
   \<and> (map_of (authenticated_sessions w) session_id = None \<longrightarrow>
        update_session_activity session_id w = Inr ((), w))"
proof (intro conjI impI)
  assume r: "map_of (authenticated_sessions w) session_id = Some (account_number, last_activity)"
  let ?w' = "w\<lparr>reads := Suc (reads w),
      authenticated_sessions :=
        AList.update session_id (account_number, clock w (reads w)) (authenticated_sessions w)\<rparr>"
  let ?w'' = "?w'\<lparr>reads := Suc (reads ?w')\<rparr>"
  have run: "update_session_activity session_id w = Inr ((), ?w')"
    using r by (simp add: update_session_activity_eq)
  have keys: "map fst (authenticated_sessions ?w') = map fst (authenticated_sessions w)"
    using r by (simp add: keys_update_present)
  have live: "is_authenticated session_id ?w' =
      Inr (float_le_int (float_sub (clock w (Suc (reads w))) (clock w (reads w))) 900, ?w'')"
    by (simp add: is_authenticated_eq map_of_update_same)
  have stays: "valof (clock w (Suc (reads w))) - valof (clock w (reads w)) \<le> 900 \<longrightarrow>
      is_authenticated session_id ?w' = Inr (True, ?w'')"
    unfolding live by (simp add: float_sub_le_900_exact)
  have "update_session_activity session_id w = Inr ((), ?w')
         \<and> map_of (authenticated_sessions ?w') session_id = Some (account_number, clock w (reads w))
         \<and> (\<forall>other. other \<noteq> session_id \<longrightarrow>
               map_of (authenticated_sessions ?w') other = map_of (authenticated_sessions w) other)
         \<and> map fst (authenticated_sessions ?w') = map fst (authenticated_sessions w)
         \<and> is_authenticated session_id ?w' =
             Inr (float_le_int (float_sub (clock w (Suc (reads w))) (clock w (reads w))) 900, ?w'')
         \<and> (valof (clock w (Suc (reads w))) - valof (clock w (reads w)) \<le> 900 \<longrightarrow>
               is_authenticated session_id ?w' = Inr (True, ?w''))"
    using run keys live stays by (simp add: map_of_update_same map_of_update_other)
  then show "\<exists>w' w''. update_session_activity session_id w = Inr ((), w')
         \<and> map_of (authenticated_sessions w') session_id = Some (account_number, clock w (reads w))
         \<and> (\<forall>other. other \<noteq> session_id \<longrightarrow>
               map_of (authenticated_sessions w') other = map_of (authenticated_sessions w) other)
         \<and> map fst (authenticated_sessions w') = map fst (authenticated_sessions w)
         \<and> is_authenticated session_id w' =
             Inr (float_le_int (float_sub (clock w (Suc (reads w))) (clock w (reads w))) 900, w'')
         \<and> (valof (clock w (Suc (reads w))) - valof (clock w (reads w)) \<le> 900 \<longrightarrow>
               is_authenticated session_id w' = Inr (True, w''))"
    by (intro exI[of _ ?w'] exI[of _ ?w''])
next
  assume "map_of (authenticated_sessions w) session_id = None"
  then show "update_session_activity session_id w = Inr ((), w)"
    by (simp add: update_session_activity_eq)
qed

theorem update_session_activity_refreshes_witness:
  "map_of [(str ''s'', (str ''ACC1'', Double 0 0)), (str ''u'', (str ''ACC2'', Double 7 0))] (str ''s'')
     = Some (str ''ACC1'', Double 0 0)
   \<and> map_of [(str ''s'', (str ''ACC1'', Double 0 0)), (str ''u'', (str ''ACC2'', Double 7 0))] (str ''t'')
     = None
   \<and> str ''u'' \<noteq> str ''s''
   \<and> valof (Double 1200 0) - valof (Double 600 0) \<le> 900
   \<and> valof (Double 1200 0) - valof (Double 0 0) > 900
   \<and> (\<exists>w' w''. update_session_activity (str ''s'')
           \<lparr>authenticated_sessions =
              [(str ''s'', (str ''ACC1'', Double 0 0)), (str ''u'', (str ''ACC2'', Double 7 0))],
            clock = (\<lambda>n. Double (600 + 600 * int n) 0), reads = 0\<rparr> = Inr ((), w')
         \<and> map_of (authenticated_sessions w') (str ''s'') = Some (str ''ACC1'', Double 600 0)
         \<and> map_of (authenticated_sessions w') (str ''u'') = Some (str ''ACC2'', Double 7 0)
         \<and> is_authenticated (str ''s'') w' = Inr (True, w''))
   \<and> update_session_activity (str ''t'')
           \<lparr>authenticated_sessions =
              [(str ''s'', (str ''ACC1'', Double 0 0)), (str ''u'', (str ''ACC2'', Double 7 0))],
            clock = (\<lambda>n. Double (600 + 600 * int n) 0), reads = 0\<rparr>
       = Inr ((), \<lparr>authenticated_sessions =
              [(str ''s'', (str ''ACC1'', Double 0 0)), (str ''u'', (str ''ACC2'', Double 7 0))],
            clock = (\<lambda>n. Double (600 + 600 * int n) 0), reads = 0\<rparr>)"
proof -
  let ?W = "\<lparr>authenticated_sessions =
              [(str ''s'', (str ''ACC1'', Double 0 0)), (str ''u'', (str ''ACC2'', Double 7 0))],
            clock = (\<lambda>n. Double (600 + 600 * int n) 0), reads = 0\<rparr>"
  have us: "str ''u'' \<noteq> str ''s''" and ts: "str ''t'' \<noteq> str ''s''" and tu: "str ''t'' \<noteq> str ''u''"
    by (simp_all add: str_def)
  have r: "map_of (authenticated_sessions ?W) (str ''s'') = Some (str ''ACC1'', Double 0 0)" by simp
  have n: "map_of (authenticated_sessions ?W) (str ''t'') = None" using ts tu by simp
  have near: "valof (Double 1200 0) - valof (Double 600 0) \<le> 900" by (simp add: valof_def)
  have far: "valof (Double 1200 0) - valof (Double 0 0) > 900" by (simp add: valof_def)
  from update_session_activity_refreshes[of ?W "str ''s''" "str ''ACC1''" "Double 0 0"] r
  obtain w' w'' where
    a: "update_session_activity (str ''s'') ?W = Inr ((), w')"
    and b: "map_of (authenticated_sessions w') (str ''s'') = Some (str ''ACC1'', Double 600 0)"
    and c: "\<forall>other. other \<noteq> str ''s'' \<longrightarrow>
               map_of (authenticated_sessions w') other = map_of (authenticated_sessions ?W) other"
    and d: "valof (clock ?W (Suc (reads ?W))) - valof (clock ?W (reads ?W)) \<le> 900 \<longrightarrow>
               is_authenticated (str ''s'') w' = Inr (True, w'')"
    by auto
  from c us have u: "map_of (authenticated_sessions w') (str ''u'') = Some (str ''ACC2'', Double 7 0)"
    by simp
  from d near have live: "is_authenticated (str ''s'') w' = Inr (True, w'')" by simp
  from update_session_activity_refreshes[of ?W "str ''t''"] n
  have e: "update_session_activity (str ''t'') ?W = Inr ((), ?W)" by blast
  from a b u live e us near far r n show ?thesis by auto
qed

text \<open>
  C10. The claim has the cleanup leave exactly the records whose exact age is at most 900
  seconds. With the clock at \<open>1024\<close> the record with a last activity at
  \<open>124 - 2 ^ -46\<close> is older than 900 seconds and is left in the store: its computed age
  is \<open>900.0\<close>.
\<close>

theorem cleanup_survivor_past_900:
  "is_double (Double 8725724278030335 (- 46)) \<and> is_double (Double 1024 0) \<and> is_double (Double 100 0)
   \<and> valof (Double 1024 0) - valof (Double 8725724278030335 (- 46)) > 900
   \<and> cleanup_expired_sessions
        \<lparr>authenticated_sessions =
           [(str ''a'', (str ''ACC1'', Double 100 0)),
            (str ''b'', (str ''ACC2'', Double 8725724278030335 (- 46)))],
         clock = (\<lambda>n. Double 1024 0), reads = 0\<rparr>
      = Inr ([str ''a''],
          \<lparr>authenticated_sessions = [(str ''b'', (str ''ACC2'', Double 8725724278030335 (- 46)))],
           clock = (\<lambda>n. Double 1024 0), reads = Suc 0\<rparr>)"
proof -
  have ne: "str ''b'' \<noteq> str ''a''" by (simp add: str_def)
  show ?thesis
    using ne by (simp add: is_double_def valof_def cleanup_expired_sessions_eq expired_at_def
        SESSION_TIMEOUT_900 float_eval)
qed

text \<open>
  C10, as amended. When the clock's next reading equals the one
  \<open>cleanup_expired_sessions\<close> took, the cleanup of a store that holds every key once
  leaves exactly the records whose age, as computed in double precision, is at most 900
  (exactly when the exact age is at most \<open>900 + 2 ^ -44\<close>), unchanged;
  \<open>is_authenticated\<close> returns for every session id the same value before and after it;
  and a second cleanup returns the empty list and leaves the store as it is.
\<close>

theorem cleanup_expired_sessions_idempotent:
  assumes "dict_ok (authenticated_sessions w)"
    and "clock w (Suc (reads w)) = clock w (reads w)"
  shows "\<exists>ids w1 b wa wb. cleanup_expired_sessions w = Inr (ids, w1)
     \<and> authenticated_sessions w1 =
         filter (\<lambda>(session_id, account_number, last_activity).
                   float_le_int (float_sub (clock w (reads w)) last_activity) 900)
           (authenticated_sessions w)
     \<and> is_authenticated session_id w = Inr (b, wa)
     \<and> is_authenticated session_id w1 = Inr (b, wb)
     \<and> cleanup_expired_sessions w1 = Inr ([], w1\<lparr>reads := Suc (reads w1)\<rparr>)
     \<and> float_le_int (float_sub t u) 900 = (valof t - valof u \<le> 900 + 2 powi (- 44))"
proof -
  let ?t = "clock w (reads w)"
  let ?S = "authenticated_sessions w"
  let ?L = "\<lambda>(session_id :: pystr, account_number :: pystr, last_activity).
              float_le_int (float_sub ?t last_activity) 900"
  let ?w1 = "w\<lparr>reads := Suc (reads w), authenticated_sessions := filter ?L ?S\<rparr>"
  let ?ids = "map fst (filter (expired_at ?t) ?S)"
  have run: "cleanup_expired_sessions w = Inr (?ids, ?w1)"
    by (rule cleanup_expired_sessions_distinct[OF assms(1), unfolded live_at_eq])
  have t1: "clock ?w1 (reads ?w1) = ?t"
    using assms(2) by simp
  have s1: "authenticated_sessions ?w1 = filter ?L ?S"
    by simp
  have none: "filter (expired_at ?t) (filter ?L ?S) = []"
    by (rule no_expired_left[of ?t ?S, unfolded live_at_eq])
  have "filter (expired_at (clock ?w1 (reads ?w1))) (authenticated_sessions ?w1) = []"
    unfolding t1 s1 by (rule none)
  then have again: "cleanup_expired_sessions ?w1 = Inr ([], ?w1\<lparr>reads := Suc (reads ?w1)\<rparr>)"
    by (rule cleanup_nothing_expired)
  have look: "map_of (filter ?L ?S) session_id =
      (case map_of ?S session_id of None \<Rightarrow> None
       | Some v \<Rightarrow> if expired_at ?t (session_id, v) then None else Some v)"
    by (rule map_of_filter_expired[OF assms(1), of "expired_at ?t", unfolded live_at_eq])
  let ?b = "case map_of ?S session_id of
              None \<Rightarrow> False
            | Some (account_number, last_activity) \<Rightarrow>
                float_le_int (float_sub ?t last_activity) 900"
  from is_authenticated_value[of session_id w]
  obtain wa where before: "is_authenticated session_id w = Inr (?b, wa)" ..
  have same_value: "(case map_of (authenticated_sessions ?w1) session_id of
              None \<Rightarrow> False
            | Some (account_number, last_activity) \<Rightarrow>
                float_le_int (float_sub (clock ?w1 (reads ?w1)) last_activity) 900) = ?b"
    unfolding t1 s1 look
    by (cases "map_of ?S session_id") (auto simp: expired_at_eq float_sub_gt)
  from is_authenticated_value[of session_id ?w1]
  obtain wb where after: "is_authenticated session_id ?w1 = Inr (?b, wb)"
    unfolding same_value ..
  have le: "float_le_int (float_sub t u) 900 = (valof t - valof u \<le> 900 + 2 powi (- 44))"
    by (rule float_sub_le_900)
  have "cleanup_expired_sessions w = Inr (?ids, ?w1)
     \<and> authenticated_sessions ?w1 = filter ?L ?S
     \<and> is_authenticated session_id w = Inr (?b, wa)
     \<and> is_authenticated session_id ?w1 = Inr (?b, wb)
     \<and> cleanup_expired_sessions ?w1 = Inr ([], ?w1\<lparr>reads := Suc (reads ?w1)\<rparr>)
     \<and> float_le_int (float_sub t u) 900 = (valof t - valof u \<le> 900 + 2 powi (- 44))"
    using run before after again le by (intro conjI) simp_all
  then show ?thesis
    by (intro exI[of _ ?ids] exI[of _ ?w1] exI[of _ ?b] exI[of _ wa] exI[of _ wb])
qed

theorem cleanup_expired_sessions_idempotent_witness:
  "dict_ok [(str ''s1'', (str ''A'', Double 0 0)), (str ''s2'', (str ''B'', Double 500 0)),
            (str ''s3'', (str ''C'', Double 50 0))]
   \<and> (\<exists>ids w1 b wa wb.
        cleanup_expired_sessions
          \<lparr>authenticated_sessions =
             [(str ''s1'', (str ''A'', Double 0 0)), (str ''s2'', (str ''B'', Double 500 0)),
              (str ''s3'', (str ''C'', Double 50 0))],
           clock = (\<lambda>n. Double 1000 0), reads = 0\<rparr> = Inr (ids, w1)
        \<and> authenticated_sessions w1 = [(str ''s2'', (str ''B'', Double 500 0))]
        \<and> is_authenticated (str ''s1'')
          \<lparr>authenticated_sessions =
             [(str ''s1'', (str ''A'', Double 0 0)), (str ''s2'', (str ''B'', Double 500 0)),
              (str ''s3'', (str ''C'', Double 50 0))],
           clock = (\<lambda>n. Double 1000 0), reads = 0\<rparr> = Inr (b, wa)
        \<and> is_authenticated (str ''s1'') w1 = Inr (b, wb)
        \<and> cleanup_expired_sessions w1 = Inr ([], w1\<lparr>reads := Suc (reads w1)\<rparr>))"
proof -
  let ?W = "\<lparr>authenticated_sessions =
             [(str ''s1'', (str ''A'', Double 0 0)), (str ''s2'', (str ''B'', Double 500 0)),
              (str ''s3'', (str ''C'', Double 50 0))],
         clock = (\<lambda>n. Double 1000 0), reads = 0\<rparr>"
  have ok: "dict_ok (authenticated_sessions ?W)"
    by (simp add: dict_ok_def str_def)
  have still: "clock ?W (Suc (reads ?W)) = clock ?W (reads ?W)"
    by simp
  from cleanup_expired_sessions_idempotent[OF ok still, of "str ''s1''" "Double 0 0" "Double 0 0"]
  obtain ids w1 b wa wb where run: "cleanup_expired_sessions ?W = Inr (ids, w1)"
    and s: "authenticated_sessions w1 =
         filter (\<lambda>(session_id, account_number, last_activity).
                   float_le_int (float_sub (clock ?W (reads ?W)) last_activity) 900)
           (authenticated_sessions ?W)"
    and before: "is_authenticated (str ''s1'') ?W = Inr (b, wa)"
    and after: "is_authenticated (str ''s1'') w1 = Inr (b, wb)"
    and again: "cleanup_expired_sessions w1 = Inr ([], w1\<lparr>reads := Suc (reads w1)\<rparr>)"
    by blast
  from s have s': "authenticated_sessions w1 = [(str ''s2'', (str ''B'', Double 500 0))]"
    by (simp add: float_eval)
  show ?thesis
    apply (rule conjI)
    subgoal using ok by simp
    subgoal using run s' before after again by blast
    done
qed

end
